theory Spec2Isabelle
  imports Main "HOL-Library.Sublist"
begin

chapter \<open>proxmox-guardian: journal, retry wrapper, UPS monitor, orchestrator, recovery\<close>

text \<open>
  A shallow embedding of the Go packages \<^verbatim>\<open>internal/state\<close>, \<^verbatim>\<open>internal/executor\<close>,
  \<^verbatim>\<open>internal/ups\<close>, \<^verbatim>\<open>internal/orchestrator\<close> and \<^verbatim>\<open>internal/recovery\<close>.

  Conventions of the embedding.
  \<^item> A Go struct is a record. Field names are global in HOL, so each record prefixes the
    Go field name (\<open>spec_Recovery\<close> for \<^verbatim>\<open>ActionSpec.Recovery\<close>, \<open>ca_Success\<close> for
    \<^verbatim>\<open>CompletedAction.Success\<close>, \<open>st_Status\<close> for \<^verbatim>\<open>State.Status\<close>, and so on).
  \<^item> Go \<^verbatim>\<open>string\<close> is \<open>string\<close>, Go \<^verbatim>\<open>int\<close> is \<open>int\<close>, a nilable pointer is an \<open>option\<close>,
    an \<^verbatim>\<open>error\<close> is a \<open>string option\<close> (\<open>None\<close> for \<^verbatim>\<open>nil\<close>, otherwise the message).
  \<^item> Wall-clock readings (\<^verbatim>\<open>time.Now()\<close>) are inputs the program cannot be run on: the
    fields that only store them (\<^verbatim>\<open>StartedAt\<close>, \<^verbatim>\<open>LastUpdated\<close>, \<^verbatim>\<open>CompletedAt\<close>,
    \<^verbatim>\<open>Timestamp\<close>, \<^verbatim>\<open>Duration\<close>) are left out of the records, and the session id, which
    is printed from the clock, is a parameter.
  \<^item> The outside world (executors, the file system, cancellation of a context) is a
    parameter of each operation, so that every run of the code is the value of the model
    at some choice of these parameters.
\<close>

section \<open>Printing an integer in decimal\<close>

text \<open>
  \<^verbatim>\<open>fmt.Sprintf\<close> with the verb \<^verbatim>\<open>%d\<close>: the decimal digits of the number, most significant
  first, with a minus sign before a negative one.
\<close>

definition digit_char :: "nat \<Rightarrow> char" where
  "digit_char d = (if d < 10 then ''0123456789'' ! d else CHR ''?'')"

function fmt_nat :: "nat \<Rightarrow> string" where
  "fmt_nat n = (if n < 10 then [digit_char n] else fmt_nat (n div 10) @ [digit_char (n mod 10)])"
  by pat_completeness auto
termination
  by (relation "measure id") auto

declare fmt_nat.simps [simp del]

definition fmt_d :: "int \<Rightarrow> string" where
  "fmt_d i = (if i < 0 then CHR ''-'' # fmt_nat (nat (- i)) else fmt_nat (nat i))"

section \<open>Package state: the journal\<close>

subsection \<open>Data\<close>

type_synonym Status = string

definition StatusIdle :: Status where "StatusIdle = ''idle''"
definition StatusInProgress :: Status where "StatusInProgress = ''in_progress''"
definition StatusCompleted :: Status where "StatusCompleted = ''completed''"
definition StatusFailed :: Status where "StatusFailed = ''failed''"
definition StatusRecovering :: Status where "StatusRecovering = ''recovering''"

record SelectorSpec =
  sel_Type :: string
  sel_Tags :: "string list"
  sel_ExcludeTags :: "string list"
  sel_NameRegex :: string
  sel_VMIDRange :: "int list"

record ActionSpec =
  spec_Type :: string
  spec_Host :: string
  spec_User :: string
  spec_Guest :: string
  spec_Command :: string
  spec_Recovery :: string
  spec_Action :: string
  spec_Selector :: "SelectorSpec option"

record CompletedAction =
  ca_PhaseIndex :: int
  ca_PhaseName :: string
  ca_ActionIndex :: int
  ca_ActionType :: string
  ca_ActionSpec :: ActionSpec
  ca_Success :: bool
  ca_Output :: string
  ca_Error :: string

record State =
  st_SessionID :: string
  st_Status :: Status
  st_TriggerEvent :: string
  st_CurrentPhase :: int
  st_CurrentAction :: int
  st_CompletedActions :: "CompletedAction list"
  st_LastError :: string

record Manager =
  filePath :: string
  state :: State

text \<open>The zero value of \<^verbatim>\<open>State\<close> with a given status: \<^verbatim>\<open>&State{Status: s}\<close>.\<close>

definition zero_State :: "Status \<Rightarrow> State" where
  "zero_State s =
     \<lparr>st_SessionID = [], st_Status = s, st_TriggerEvent = [], st_CurrentPhase = 0,
      st_CurrentAction = 0, st_CompletedActions = [], st_LastError = []\<rparr>"

definition NewManager :: "string \<Rightarrow> Manager" where
  "NewManager path = \<lparr>filePath = path, state = zero_State StatusIdle\<rparr>"

subsection \<open>Mutators\<close>

definition StartSession :: "string \<Rightarrow> string \<Rightarrow> Manager \<Rightarrow> string \<times> Manager" where
  "StartSession sessionID triggerEvent m =
     (sessionID,
      m\<lparr>state :=
          \<lparr>st_SessionID = sessionID, st_Status = StatusInProgress,
           st_TriggerEvent = triggerEvent, st_CurrentPhase = 0, st_CurrentAction = 0,
           st_CompletedActions = [], st_LastError = []\<rparr>\<rparr>)"

definition UpdateProgress :: "int \<Rightarrow> int \<Rightarrow> Manager \<Rightarrow> Manager" where
  "UpdateProgress phaseIndex actionIndex m =
     m\<lparr>state := (state m)\<lparr>st_CurrentPhase := phaseIndex, st_CurrentAction := actionIndex\<rparr>\<rparr>"

definition RecordAction :: "CompletedAction \<Rightarrow> Manager \<Rightarrow> Manager" where
  "RecordAction action m =
     m\<lparr>state := (state m)\<lparr>st_CompletedActions := st_CompletedActions (state m) @ [action]\<rparr>\<rparr>"

definition SetStatus :: "Status \<Rightarrow> Manager \<Rightarrow> Manager" where
  "SetStatus status m = m\<lparr>state := (state m)\<lparr>st_Status := status\<rparr>\<rparr>"

definition SetError :: "string \<Rightarrow> Manager \<Rightarrow> Manager" where
  "SetError err m = m\<lparr>state := (state m)\<lparr>st_LastError := err\<rparr>\<rparr>"

definition GetState :: "Manager \<Rightarrow> State" where
  "GetState m = state m"

definition NeedsRecovery :: "Manager \<Rightarrow> bool" where
  "NeedsRecovery m =
     (st_Status (state m) = StatusInProgress \<or> st_Status (state m) = StatusFailed)"

definition Clear :: "Manager \<Rightarrow> Manager" where
  "Clear m = m\<lparr>state := zero_State StatusIdle\<rparr>"

subsection \<open>GetActionsForRecovery\<close>

text \<open>
  The first loop appends every completed action that succeeded and has a recovery command
  to \<^verbatim>\<open>recoverable\<close>, in journal order.
\<close>

fun collect_recoverable :: "CompletedAction list \<Rightarrow> CompletedAction list \<Rightarrow> CompletedAction list" where
  "collect_recoverable [] recoverable = recoverable"
| "collect_recoverable (action # rest) recoverable =
     collect_recoverable rest
       (if ca_Success action \<and> spec_Recovery (ca_ActionSpec action) \<noteq> []
        then recoverable @ [action] else recoverable)"

text \<open>
  The second loop reverses the slice in place:
  \<^verbatim>\<open>for i, j := 0, len(r)-1; i < j; i, j = i+1, j-1 { r[i], r[j] = r[j], r[i] }\<close>.
  Both right-hand sides of the swap are read before either element is written.
\<close>

function reverse_loop :: "'a list \<Rightarrow> int \<Rightarrow> int \<Rightarrow> 'a list" where
  "reverse_loop xs i j =
     (if i < j
      then reverse_loop (xs[nat i := xs ! nat j, nat j := xs ! nat i]) (i + 1) (j - 1)
      else xs)"
  by pat_completeness auto
termination
  by (relation "measure (\<lambda>(xs, i, j). nat (j - i))") auto

declare reverse_loop.simps [simp del]

definition GetActionsForRecovery :: "Manager \<Rightarrow> CompletedAction list" where
  "GetActionsForRecovery m =
     (let recoverable = collect_recoverable (st_CompletedActions (state m)) []
      in reverse_loop recoverable 0 (int (length recoverable) - 1))"

subsection \<open>Save\<close>

text \<open>
  The calls that a journal update makes on the file system are its effect, so \<open>Save\<close> is
  modelled by the list of calls it makes, in order, together with the error it returns.
  \<open>MkdirAll\<close> is \<^verbatim>\<open>os.MkdirAll(path, perm)\<close> and \<open>WriteFile\<close> is \<^verbatim>\<open>os.WriteFile(name, data,
  perm)\<close>, which opens the named file itself for writing (creating it with \<open>perm\<close> if it is
  missing, truncating it otherwise), writes the data into it and closes it. These two are
  the only calls the code makes. The other three constructors are the calls named by the
  specification for the update of the journal: creating a temporary file, flushing a file
  to the disk, and renaming a file over another.
\<close>

datatype fs_op =
  MkdirAll string nat
| WriteFile string string nat
| CreateTemp string nat
| Sync string
| Rename string string

text \<open>
  The permissions of the source are octal literals: \<^verbatim>\<open>0750\<close> is 488 and \<^verbatim>\<open>0600\<close> is 384.
\<close>

definition perm_0750 :: nat where "perm_0750 = 7 * 64 + 5 * 8 + 0"
definition perm_0600 :: nat where "perm_0600 = 6 * 64 + 0 * 8 + 0"

text \<open>
  \<open>Save marshal fs m\<close>: \<open>marshal\<close> is \<^verbatim>\<open>json.MarshalIndent\<close> on the state (\<open>Inl\<close> its error,
  \<open>Inr\<close> the bytes) and \<open>fs\<close> is the answer of the file system to a call (\<open>None\<close> for
  success). The directory is cut off the path with
  \<^verbatim>\<open>m.filePath[:len(m.filePath)-len("/state.json")]\<close>; for a path shorter than the suffix the
  slice bound is negative and the run-time panics, which is the result \<open>None\<close>.
\<close>

definition Save ::
  "(State \<Rightarrow> string + string) \<Rightarrow> (fs_op \<Rightarrow> string option) \<Rightarrow> Manager \<Rightarrow>
   (fs_op list \<times> string option) option"
where
  "Save marshal fs m =
     (if length (filePath m) < length ''/state.json'' then None
      else
        (let dir = take (length (filePath m) - length ''/state.json'') (filePath m)
         in case fs (MkdirAll dir perm_0750) of
              Some err \<Rightarrow>
                Some ([MkdirAll dir perm_0750], Some (''creating state directory: '' @ err))
            | None \<Rightarrow>
                (case marshal (state m) of
                   Inl err \<Rightarrow> Some ([MkdirAll dir perm_0750], Some (''marshaling state: '' @ err))
                 | Inr data \<Rightarrow>
                     (case fs (WriteFile (filePath m) data perm_0600) of
                        Some err \<Rightarrow>
                          Some ([MkdirAll dir perm_0750, WriteFile (filePath m) data perm_0600],
                                Some (''writing state file: '' @ err))
                      | None \<Rightarrow>
                          Some ([MkdirAll dir perm_0750, WriteFile (filePath m) data perm_0600],
                                None)))))"

subsection \<open>The update of the journal that the specification describes\<close>

text \<open>
  In the words of the specification: the serialized state is written by creating a
  temporary file, flushing it, and renaming it over the state file, with file mode 0600,
  and the state file is never written in place.
\<close>

definition spec_atomic_update :: "string \<Rightarrow> string \<Rightarrow> fs_op list \<Rightarrow> bool" where
  "spec_atomic_update path data ops =
     ((\<exists>tmp. tmp \<noteq> path \<and>
             subseq [CreateTemp tmp perm_0600, WriteFile tmp data perm_0600, Sync tmp,
                     Rename tmp path] ops) \<and>
      (\<forall>d p. WriteFile path d p \<notin> set ops))"

section \<open>Package executor: the executor contract and the retry wrapper\<close>

subsection \<open>Data\<close>

record ActionResult =
  res_Success :: bool
  res_Output :: string
  res_Error :: string
  res_Retries :: int

record RetryConfig =
  rc_Attempts :: int
  rc_Delay :: int
  rc_Backoff :: string

record HealthcheckConfig =
  hc_Command :: string
  hc_Expect :: string

text \<open>
  What one call of \<^verbatim>\<open>Execute\<close> or \<^verbatim>\<open>Recover\<close> returns: the pair
  \<^verbatim>\<open>(*ActionResult, error)\<close>, either of which may be \<^verbatim>\<open>nil\<close>.
\<close>

type_synonym outcome = "ActionResult option \<times> string option"

text \<open>
  The \<^verbatim>\<open>Executor\<close> interface. An executor is an object of the outside world whose
  successive calls may answer differently (the test suite's mock counts its calls), so
  each method is the sequence of its answers: \<open>ex_Execute e k\<close> is what the call number
  \<open>k\<close> (from 0) of \<^verbatim>\<open>Execute\<close> returns.
\<close>

record Executor =
  ex_Execute :: "nat \<Rightarrow> outcome"
  ex_Recover :: "nat \<Rightarrow> outcome"
  ex_Healthcheck :: "nat \<Rightarrow> bool \<times> string option"
  ex_String :: string

text \<open>
  What a function that dereferences a result pointer does: it returns, or it stops with
  Go's run-time panic for a nil pointer. \<open>Returned n r e\<close> is the return of \<^verbatim>\<open>(r, e)\<close> after
  \<open>n\<close> calls of \<^verbatim>\<open>Execute\<close>; \<open>NilDeref n\<close> is the panic, raised in the call number \<open>n\<close>.
\<close>

datatype retry_result =
  NilDeref nat
| Returned nat "ActionResult option" "string option"

subsection \<open>ExecuteWithRetry\<close>

text \<open>
  The loop \<^verbatim>\<open>for attempt := 1; attempt <= retry.Attempts; attempt++\<close>, with
  \<^verbatim>\<open>lastResult\<close> and \<^verbatim>\<open>lastErr\<close> as loop state. After a failed attempt that is not the
  last one the code waits in a \<^verbatim>\<open>select\<close> on \<^verbatim>\<open>ctx.Done()\<close> and \<^verbatim>\<open>time.After(delay)\<close>:
  \<open>done attempt\<close> says that the wait after that attempt ends by cancellation, in which
  case \<^verbatim>\<open>(nil, ctx.Err())\<close> is returned; \<open>cerr\<close> is the message of \<^verbatim>\<open>ctx.Err()\<close>. The length
  of the wait (\<^verbatim>\<open>Delay\<close>, doubled each round under exponential \<^verbatim>\<open>Backoff\<close>) costs time
  only and is not part of the result. The counter is a Go \<^verbatim>\<open>int\<close> of 64 bits; it runs
  from 1 to at most \<^verbatim>\<open>Attempts + 1\<close>, far from the point of wrap-around for every number of
  attempts a run can complete, and is taken as an integer.
\<close>

function retry_loop ::
  "(nat \<Rightarrow> outcome) \<Rightarrow> (int \<Rightarrow> bool) \<Rightarrow> string \<Rightarrow> int \<Rightarrow> int \<Rightarrow>
   ActionResult option \<Rightarrow> string option \<Rightarrow> retry_result"
where
  "retry_loop exec done cerr attempts attempt lastResult lastErr =
     (if attempt \<le> attempts then
        (case exec (nat (attempt - 1)) of
           (None, None) \<Rightarrow> NilDeref (nat attempt)
         | (Some result, None) \<Rightarrow>
             if res_Success result
             then Returned (nat attempt) (Some (result\<lparr>res_Retries := attempt - 1\<rparr>)) None
             else if attempt < attempts \<and> done attempt
             then Returned (nat attempt) None (Some cerr)
             else retry_loop exec done cerr attempts (attempt + 1) (Some result) None
         | (result, Some err) \<Rightarrow>
             if attempt < attempts \<and> done attempt
             then Returned (nat attempt) None (Some cerr)
             else retry_loop exec done cerr attempts (attempt + 1) result (Some err))
      else Returned (nat attempts)
             (map_option (\<lambda>r. r\<lparr>res_Retries := attempts\<rparr>) lastResult) lastErr)"
  by pat_completeness auto
termination
  by (relation "measure (\<lambda>(exec, done, cerr, attempts, attempt, lastResult, lastErr).
        nat (attempts + 1 - attempt))") auto

declare retry_loop.simps [simp del]

definition ExecuteWithRetry ::
  "(nat \<Rightarrow> outcome) \<Rightarrow> (int \<Rightarrow> bool) \<Rightarrow> string \<Rightarrow> RetryConfig option \<Rightarrow> retry_result"
where
  "ExecuteWithRetry exec done cerr retry =
     (case retry of
        None \<Rightarrow> Returned 1 (fst (exec 0)) (snd (exec 0))
      | Some rc \<Rightarrow>
          if rc_Attempts rc \<le> 1
          then Returned 1 (fst (exec 0)) (snd (exec 0))
          else retry_loop exec done cerr (rc_Attempts rc) 1 None None)"

text \<open>
  An attempt fails, and consumes a retry, when it returns an error or a result that is
  not a success. (A call that returns neither a result nor an error is no failure: the
  code dereferences the nil result.)
\<close>

definition attempt_fails :: "outcome \<Rightarrow> bool" where
  "attempt_fails out =
     (case out of
        (_, Some err) \<Rightarrow> True
      | (Some result, None) \<Rightarrow> \<not> res_Success result
      | (None, None) \<Rightarrow> False)"

section \<open>Package ups: the UPS monitor\<close>

subsection \<open>Samples, thresholds and events\<close>

text \<open>The struct \<^verbatim>\<open>ups.Status\<close>, one sample of the UPS.\<close>

record UpsStatus =
  ups_Name :: string
  ups_Status :: string
  ups_BatteryCharge :: int
  ups_Runtime :: int
  ups_Load :: int

text \<open>
  The flags are read with \<^verbatim>\<open>strings.Contains\<close>: the status string has the flag as a
  contiguous substring.
\<close>

definition IsOnline :: "UpsStatus \<Rightarrow> bool" where
  "IsOnline s = sublist ''OL'' (ups_Status s)"

definition IsOnBattery :: "UpsStatus \<Rightarrow> bool" where
  "IsOnBattery s = sublist ''OB'' (ups_Status s)"

definition IsLowBattery :: "UpsStatus \<Rightarrow> bool" where
  "IsLowBattery s = sublist ''LB'' (ups_Status s)"

record Thresholds =
  th_Warning :: int
  th_Critical :: int
  th_Emergency :: int

datatype EventType =
  EventPowerLost
| EventPowerRestored
| EventLowBattery
| EventCriticalBattery
| EventEmergency

record Event =
  ev_Type :: EventType
  ev_Status :: UpsStatus
  ev_Message :: string

text \<open>
  The monitor, as far as the sampling loop uses it: the thresholds and the two buffered
  channels, each a queue of at most \<open>chan_cap\<close> elements (\<^verbatim>\<open>make(chan _, 10)\<close>).
\<close>

record Monitor =
  mon_thresholds :: Thresholds
  mon_statusCh :: "UpsStatus list"
  mon_eventCh :: "Event list"

definition chan_cap :: nat where
  "chan_cap = 10"

definition NewMonitor :: "Thresholds \<Rightarrow> Monitor" where
  "NewMonitor thresholds =
     \<lparr>mon_thresholds = thresholds, mon_statusCh = [], mon_eventCh = []\<rparr>"

subsection \<open>checkEvents and emitEvent\<close>

text \<open>
  \<open>checkEvents\<close> is modelled by its effect: the calls of \<^verbatim>\<open>m.emitEvent\<close> it makes, in
  order, each as the event that the call builds from its arguments. The first block is
  guarded by \<^verbatim>\<open>last != nil\<close> (the parameter \<^verbatim>\<open>last\<close> is \<open>last_sample\<close> here) and holds
  two independent tests; the second block is the
  \<^verbatim>\<open>if / else if / else if\<close> chain on the battery charge.
\<close>

definition checkEvents :: "Thresholds \<Rightarrow> UpsStatus \<Rightarrow> UpsStatus option \<Rightarrow> Event list" where
  "checkEvents thresholds current last_sample =
     (case last_sample of
        None \<Rightarrow> []
      | Some l \<Rightarrow>
          (if IsOnline l \<and> IsOnBattery current
           then [\<lparr>ev_Type = EventPowerLost, ev_Status = current,
                  ev_Message = ''Power lost, running on battery''\<rparr>]
           else []) @
          (if IsOnBattery l \<and> IsOnline current
           then [\<lparr>ev_Type = EventPowerRestored, ev_Status = current,
                  ev_Message = ''Power restored''\<rparr>]
           else [])) @
     (if IsOnBattery current then
        (if ups_BatteryCharge current \<le> th_Emergency thresholds
         then [\<lparr>ev_Type = EventEmergency, ev_Status = current,
                ev_Message = ''EMERGENCY: Battery at '' @ fmt_d (ups_BatteryCharge current) @ ''%''\<rparr>]
         else if ups_BatteryCharge current \<le> th_Critical thresholds
         then [\<lparr>ev_Type = EventCriticalBattery, ev_Status = current,
                ev_Message = ''Critical battery: '' @ fmt_d (ups_BatteryCharge current) @ ''%''\<rparr>]
         else if ups_BatteryCharge current \<le> th_Warning thresholds
         then [\<lparr>ev_Type = EventLowBattery, ev_Status = current,
                ev_Message = ''Low battery: '' @ fmt_d (ups_BatteryCharge current) @ ''%''\<rparr>]
         else [])
      else [])"

text \<open>
  \<open>emitEvent\<close> sends the event without blocking: it is queued when the channel has room
  and dropped when the channel is full.
\<close>

definition emitEvent :: "Event \<Rightarrow> Monitor \<Rightarrow> Monitor" where
  "emitEvent event m =
     (if length (mon_eventCh m) < chan_cap
      then m\<lparr>mon_eventCh := mon_eventCh m @ [event]\<rparr>
      else m)"

definition emitEvents :: "Event list \<Rightarrow> Monitor \<Rightarrow> Monitor" where
  "emitEvents events m = foldl (\<lambda>m' event. emitEvent event m') m events"

subsection \<open>monitorLoop\<close>

text \<open>
  One tick of the ticker: what \<^verbatim>\<open>GetStatus\<close> answers (\<open>None\<close> for an error) and, since the
  consumers of the two channels run concurrently, how many elements they have taken from
  each channel since the tick before.
\<close>

record tick =
  tk_sample :: "UpsStatus option"
  tk_statusReads :: nat
  tk_eventReads :: nat

text \<open>
  The loop keeps \<^verbatim>\<open>lastStatus\<close>, \<^verbatim>\<open>nil\<close> at the start. A failed read skips the tick and
  keeps \<^verbatim>\<open>lastStatus\<close>. Otherwise the sample is offered to the status channel (dropped when
  full), \<open>checkEvents\<close> runs against \<^verbatim>\<open>lastStatus\<close>, and the sample becomes \<^verbatim>\<open>lastStatus\<close>.
  The run ends with the list of ticks (cancellation of the context, or \<^verbatim>\<open>Stop\<close>). Beside
  the monitor and \<^verbatim>\<open>lastStatus\<close> the model returns \<open>calls\<close>, the record of every event
  handed to \<^verbatim>\<open>emitEvent\<close> during the run, in order.
\<close>

fun monitorLoop ::
  "Monitor \<Rightarrow> UpsStatus option \<Rightarrow> Event list \<Rightarrow> tick list \<Rightarrow>
   Monitor \<times> UpsStatus option \<times> Event list"
where
  "monitorLoop m lastStatus calls [] = (m, lastStatus, calls)"
| "monitorLoop m lastStatus calls (t # ticks) =
     (let m0 = m\<lparr>mon_statusCh := drop (tk_statusReads t) (mon_statusCh m),
                 mon_eventCh := drop (tk_eventReads t) (mon_eventCh m)\<rparr>
      in case tk_sample t of
           None \<Rightarrow> monitorLoop m0 lastStatus calls ticks
         | Some status \<Rightarrow>
             (let events = checkEvents (mon_thresholds m0) status lastStatus
              in monitorLoop
                   (emitEvents events
                      (if length (mon_statusCh m0) < chan_cap
                       then m0\<lparr>mon_statusCh := mon_statusCh m0 @ [status]\<rparr>
                       else m0))
                   (Some status) (calls @ events) ticks))"

text \<open>The samples of a run that were read successfully, in order.\<close>

definition samples_of :: "tick list \<Rightarrow> UpsStatus list" where
  "samples_of ticks = concat (map (\<lambda>t. case tk_sample t of None \<Rightarrow> [] | Some s \<Rightarrow> [s]) ticks)"




text \<open>The number of places where a sample with the online flag is followed by one with
  the on-battery flag.\<close>

definition power_loss_transitions :: "UpsStatus list \<Rightarrow> nat" where
  "power_loss_transitions samples =
     length (filter (\<lambda>(previous, current). IsOnline previous \<and> IsOnBattery current)
               (zip samples (tl samples)))"

text \<open>The kinds of battery-level event that the chain of tests selects for a sample.\<close>

definition cascade :: "Thresholds \<Rightarrow> UpsStatus \<Rightarrow> EventType list" where
  "cascade th s = (if IsOnBattery s then
        (if ups_BatteryCharge s \<le> th_Emergency th then [EventEmergency]
         else if ups_BatteryCharge s \<le> th_Critical th then [EventCriticalBattery]
         else if ups_BatteryCharge s \<le> th_Warning th then [EventLowBattery]
         else [])
      else [])"

text \<open>
  The number of power-loss transitions in a sequence of samples that follows the sample
  \<open>prev\<close> (if any): the recursive form of \<open>power_loss_transitions\<close>.
\<close>

fun transitions :: "UpsStatus option \<Rightarrow> UpsStatus list \<Rightarrow> nat" where
  "transitions prev [] = 0"
| "transitions prev (s # ss) =
     (case prev of None \<Rightarrow> 0 | Some l \<Rightarrow> if IsOnline l \<and> IsOnBattery s then 1 else 0)
     + transitions (Some s) ss"

section \<open>Package orchestrator\<close>

subsection \<open>Data\<close>

text \<open>
  The orchestrator keeps a state of its own (\<^verbatim>\<open>orchestrator.State\<close>, with a plain string
  for the status) and its own record of completed actions.
\<close>

record OCompletedAction =
  oca_PhaseIndex :: int
  oca_PhaseName :: string
  oca_ActionIndex :: int
  oca_ActionType :: string
  oca_Description :: string
  oca_RecoveryCmd :: string
  oca_Success :: bool
  oca_Error :: string

record OState =
  os_SessionID :: string
  os_Status :: string
  os_CurrentPhase :: int
  os_CurrentAction :: int
  os_CompletedActions :: "OCompletedAction list"
  os_TriggerEvent :: string

record Action =
  act_Type :: string
  act_Executor :: Executor
  act_Recovery :: string
  act_OnError :: string
  act_Retry :: "RetryConfig option"
  act_Healthcheck :: "HealthcheckConfig option"

record Phase =
  ph_Name :: string
  ph_Parallel :: bool
  ph_Timeout :: int
  ph_Condition :: string
  ph_Actions :: "Action list"

text \<open>
  The logger and the notifier only report (a failed notification is logged and nothing
  else), so they are left out.
\<close>

record Orchestrator =
  orch_phases :: "Phase list"
  orch_stateFile :: string
  orch_state :: OState

definition NewOrchestrator :: "Phase list \<Rightarrow> string \<Rightarrow> Orchestrator" where
  "NewOrchestrator phases stateFile =
     \<lparr>orch_phases = phases, orch_stateFile = stateFile,
      orch_state = \<lparr>os_SessionID = [], os_Status = ''idle'', os_CurrentPhase = 0,
                    os_CurrentAction = 0, os_CompletedActions = [], os_TriggerEvent = []\<rparr>\<rparr>"

text \<open>
  The outside world of a run of the orchestrator, beside the executors, which the actions
  carry: \<open>w_done p a k\<close> says that, in action \<open>a\<close> of phase \<open>p\<close>, the wait after attempt \<open>k\<close>
  of the retry wrapper ends by cancellation of the context (or expiry of a deadline);
  \<open>w_cerr\<close> is the message of \<^verbatim>\<open>ctx.Err()\<close>; \<open>w_marshal\<close> is \<^verbatim>\<open>json.MarshalIndent\<close> on the
  state and \<open>w_fs\<close> the answer of the file system; \<open>w_rank p a\<close> is the time at which the
  task of action \<open>a\<close> of the parallel phase \<open>p\<close> reaches the journal (tasks are served in
  the order of their ranks, and in the order of declaration among equal ranks).
\<close>

record World =
  w_done :: "int \<Rightarrow> int \<Rightarrow> int \<Rightarrow> bool"
  w_cerr :: string
  w_marshal :: "OState \<Rightarrow> string + string"
  w_fs :: "fs_op \<Rightarrow> string option"
  w_rank :: "int \<Rightarrow> nat \<Rightarrow> nat"

subsection \<open>saveState\<close>

text \<open>
  The state is marshalled and written to the state file with one call of
  \<^verbatim>\<open>os.WriteFile(o.stateFile, data, 0600)\<close>. As for \<open>Save\<close>, the result is the list of calls
  on the file system and the error returned.
\<close>

definition saveState ::
  "(OState \<Rightarrow> string + string) \<Rightarrow> (fs_op \<Rightarrow> string option) \<Rightarrow> Orchestrator \<Rightarrow>
   fs_op list \<times> string option"
where
  "saveState marshal fs orc =
     (case marshal (orch_state orc) of
        Inl err \<Rightarrow> ([], Some err)
      | Inr data \<Rightarrow>
          ([WriteFile (orch_stateFile orc) data perm_0600],
           fs (WriteFile (orch_stateFile orc) data perm_0600)))"

subsection \<open>Running one action\<close>

text \<open>
  A function of the orchestrator returns (\<open>Ret\<close>) or stops the process with the run-time
  panic of a nil dereference (\<open>Panic\<close>).
\<close>

datatype 'a ret = Panic | Ret 'a

text \<open>
  \<open>executeAction\<close> runs the executor, through the retry wrapper when the action has a retry
  policy. An error is returned at once. Otherwise the healthcheck runs when one is
  configured, and its failure is the error \<^verbatim>\<open>healthcheck failed\<close>. On success the duration of
  the result is logged, which dereferences the result. Each action owns its executor, and
  a run of \<open>Execute\<close> runs each action once, so the calls of an executor are numbered from
  0 within the action.
\<close>

definition executeAction :: "World \<Rightarrow> int \<Rightarrow> int \<Rightarrow> Action \<Rightarrow> outcome ret" where
  "executeAction w phaseIndex actionIndex action =
     (case (case act_Retry action of
              Some rc \<Rightarrow>
                ExecuteWithRetry (ex_Execute (act_Executor action))
                  (w_done w phaseIndex actionIndex) (w_cerr w) (Some rc)
            | None \<Rightarrow>
                Returned 1 (fst (ex_Execute (act_Executor action) 0))
                  (snd (ex_Execute (act_Executor action) 0))) of
        NilDeref n \<Rightarrow> Panic
      | Returned n result (Some err) \<Rightarrow> Ret (result, Some err)
      | Returned n result None \<Rightarrow>
          if act_Healthcheck action \<noteq> None \<and>
             (snd (ex_Healthcheck (act_Executor action) 0) \<noteq> None \<or>
              \<not> fst (ex_Healthcheck (act_Executor action) 0))
          then Ret (result, Some ''healthcheck failed'')
          else (case result of None \<Rightarrow> Panic | Some r \<Rightarrow> Ret (Some r, None)))"

text \<open>
  The journal entry for an action that returned \<^verbatim>\<open>(result, err)\<close>. The success flag is
  \<^verbatim>\<open>err == nil && result.Success\<close> and the error text is that of \<^verbatim>\<open>err\<close>, or else that of an
  unsuccessful result; both read the result only when \<^verbatim>\<open>err\<close> is nil.
\<close>

definition completed_of ::
  "int \<Rightarrow> string \<Rightarrow> int \<Rightarrow> Action \<Rightarrow> ActionResult option \<Rightarrow> string option \<Rightarrow>
   OCompletedAction ret"
where
  "completed_of phaseIndex phaseName i action result err =
     (case err of
        Some e \<Rightarrow>
          Ret \<lparr>oca_PhaseIndex = phaseIndex, oca_PhaseName = phaseName, oca_ActionIndex = i,
               oca_ActionType = act_Type action, oca_Description = ex_String (act_Executor action),
               oca_RecoveryCmd = act_Recovery action, oca_Success = False, oca_Error = e\<rparr>
      | None \<Rightarrow>
          (case result of
             None \<Rightarrow> Panic
           | Some r \<Rightarrow>
               Ret \<lparr>oca_PhaseIndex = phaseIndex, oca_PhaseName = phaseName, oca_ActionIndex = i,
                    oca_ActionType = act_Type action,
                    oca_Description = ex_String (act_Executor action),
                    oca_RecoveryCmd = act_Recovery action, oca_Success = res_Success r,
                    oca_Error = (if res_Success r then [] else res_Error r)\<rparr>))"

text \<open>
  A run carries the orchestrator and, as a record of what happened, the states that have
  been handed to \<open>saveState\<close>, in order: every change of the state in this package is
  followed by \<open>saveState\<close>, whose error is ignored everywhere but at the start of
  \<open>Execute\<close>.
\<close>

type_synonym run = "Orchestrator \<times> OState list"

definition saved :: "run \<Rightarrow> run" where
  "saved r = (fst r, snd r @ [orch_state (fst r)])"

definition update_state :: "(OState \<Rightarrow> OState) \<Rightarrow> run \<Rightarrow> run" where
  "update_state f r = ((fst r)\<lparr>orch_state := f (orch_state (fst r))\<rparr>, snd r)"

text \<open>\<^verbatim>\<open>fmt.Errorf(pre + "%w", err)\<close>; a nil error is printed as \<^verbatim>\<open>%!w(<nil>)\<close>.\<close>

definition wrap_error :: "string \<Rightarrow> string option \<Rightarrow> string" where
  "wrap_error pre err = pre @ (case err of None \<Rightarrow> ''%!w(<nil>)'' | Some e \<Rightarrow> e)"

subsection \<open>A sequential phase\<close>

text \<open>
  The loop over \<^verbatim>\<open>phase.Actions\<close>, with \<open>i\<close> the index of the head of the actions still to
  run. The result is the run so far and what the function returns (its error, or the
  panic). The test \<^verbatim>\<open>err != nil || !result.Success\<close> after the entry is stored is the
  negation of the success flag of that entry.
\<close>

fun executeSequential ::
  "World \<Rightarrow> int \<Rightarrow> string \<Rightarrow> int \<Rightarrow> Action list \<Rightarrow> run \<Rightarrow> run \<times> string option ret"
where
  "executeSequential w phaseIndex phaseName i [] r = (r, Ret None)"
| "executeSequential w phaseIndex phaseName i (action # rest) r =
     (let r1 = saved (update_state (\<lambda>s. s\<lparr>os_CurrentAction := i\<rparr>) r)
      in case executeAction w phaseIndex i action of
           Panic \<Rightarrow> (r1, Panic)
         | Ret (result, err) \<Rightarrow>
             (case completed_of phaseIndex phaseName i action result err of
                Panic \<Rightarrow> (r1, Panic)
              | Ret completed \<Rightarrow>
                  (let r2 = saved (update_state
                              (\<lambda>s. s\<lparr>os_CompletedActions := os_CompletedActions s @ [completed]\<rparr>) r1)
                   in if \<not> oca_Success completed then
                        (if act_OnError action = ''continue''
                         then executeSequential w phaseIndex phaseName (i + 1) rest r2
                         else if act_OnError action = ''abort_phase''
                         then (r2, Ret (Some (wrap_error ''action failed, aborting phase: '' err)))
                         else if act_OnError action = ''abort_all''
                         then (r2, Ret (Some (wrap_error ''action failed, aborting all: '' err)))
                         else executeSequential w phaseIndex phaseName (i + 1) rest r2)
                      else executeSequential w phaseIndex phaseName (i + 1) rest r2)))"

subsection \<open>A parallel phase\<close>

text \<open>
  Every action of the phase runs in a task of its own. A task runs \<open>executeAction\<close>, which
  does not touch the state, then takes the lock, appends its journal entry and saves, and
  last sends its error to \<^verbatim>\<open>errCh\<close> when the error is not nil and the policy is
  \<^verbatim>\<open>abort_all\<close>. The tasks are served in the order \<open>order\<close> (indices into the actions, by
  rank); \<open>first\<close> is the first error sent so far, which is what the function returns once
  all tasks are done (the sends are taken in the order of the journal entries; the caller
  only logs the error). A panic in a task ends the process.
\<close>

fun parallel_tasks ::
  "World \<Rightarrow> int \<Rightarrow> string \<Rightarrow> Action list \<Rightarrow> nat list \<Rightarrow> run \<Rightarrow> string option \<Rightarrow>
   run \<times> string option ret"
where
  "parallel_tasks w phaseIndex phaseName actions [] r first = (r, Ret first)"
| "parallel_tasks w phaseIndex phaseName actions (idx # order) r first =
     (case executeAction w phaseIndex (int idx) (actions ! idx) of
        Panic \<Rightarrow> (r, Panic)
      | Ret (result, err) \<Rightarrow>
          (case completed_of phaseIndex phaseName (int idx) (actions ! idx) result err of
             Panic \<Rightarrow> (r, Panic)
           | Ret completed \<Rightarrow>
               parallel_tasks w phaseIndex phaseName actions order
                 (saved (update_state
                    (\<lambda>s. s\<lparr>os_CompletedActions := os_CompletedActions s @ [completed]\<rparr>) r))
                 (if first = None \<and> err \<noteq> None \<and> act_OnError (actions ! idx) = ''abort_all''
                  then err else first)))"

definition executeParallel :: "World \<Rightarrow> int \<Rightarrow> Phase \<Rightarrow> run \<Rightarrow> run \<times> string option ret" where
  "executeParallel w phaseIndex phase r =
     parallel_tasks w phaseIndex (ph_Name phase) (ph_Actions phase)
       (sort_key (w_rank w phaseIndex) [0..<length (ph_Actions phase)]) r None"

text \<open>
  The deadline of a phase with a timeout is part of the context that the executors and
  the waits see, and so part of the answers of the world.
\<close>

definition executePhase :: "World \<Rightarrow> int \<Rightarrow> Phase \<Rightarrow> run \<Rightarrow> run \<times> string option ret" where
  "executePhase w phaseIndex phase r =
     (if ph_Parallel phase
      then executeParallel w phaseIndex phase r
      else executeSequential w phaseIndex (ph_Name phase) 0 (ph_Actions phase) r)"

subsection \<open>Execute\<close>

text \<open>
  The loop over the phases. The error that \<open>executePhase\<close> returns is logged
  (\<^verbatim>\<open>Phase failed\<close>) and the loop goes on with the next phase, whatever the error.
\<close>

fun execute_phases :: "World \<Rightarrow> int \<Rightarrow> Phase list \<Rightarrow> run \<Rightarrow> run \<times> unit ret" where
  "execute_phases w i [] r = (r, Ret ())"
| "execute_phases w i (phase # rest) r =
     (case executePhase w i phase
             (saved (update_state (\<lambda>s. s\<lparr>os_CurrentPhase := i, os_CurrentAction := 0\<rparr>) r)) of
        (r', Panic) \<Rightarrow> (r', Panic)
      | (r', Ret err) \<Rightarrow> execute_phases w (i + 1) rest r')"

text \<open>
  \<open>Execute\<close> opens a new session over whatever state the orchestrator holds, saves it
  (the one save whose error is returned), runs the phases, sets the status
  \<^verbatim>\<open>completed\<close>, saves, and returns nil.
\<close>

definition Execute :: "World \<Rightarrow> string \<Rightarrow> string \<Rightarrow> Orchestrator \<Rightarrow> run \<times> string option ret" where
  "Execute w sessionID triggerEvent orc =
     (let orc1 = orc\<lparr>orch_state :=
                   \<lparr>os_SessionID = sessionID, os_Status = ''in_progress'', os_CurrentPhase = 0,
                    os_CurrentAction = 0, os_CompletedActions = [],
                    os_TriggerEvent = triggerEvent\<rparr>\<rparr>
      in case snd (saveState (w_marshal w) (w_fs w) orc1) of
           Some err \<Rightarrow> ((orc1, [orch_state orc1]), Ret (Some (''saving initial state: '' @ err)))
         | None \<Rightarrow>
             (case execute_phases w 0 (orch_phases orc1) (orc1, [orch_state orc1]) of
                (r, Panic) \<Rightarrow> (r, Panic)
              | (r, Ret u) \<Rightarrow>
                  (saved (update_state (\<lambda>s. s\<lparr>os_Status := ''completed''\<rparr>) r), Ret None)))"

subsection \<open>Recover\<close>

text \<open>
  \<open>Recover\<close> refuses every status but \<^verbatim>\<open>in_progress\<close> and \<^verbatim>\<open>completed\<close>. Its loop over the
  completed actions, last to first, only logs (the executor is not rebuilt from the
  state), so the state goes to \<^verbatim>\<open>recovering\<close> and then to \<^verbatim>\<open>idle\<close> with the completed
  actions dropped.
\<close>

definition Recover :: "Orchestrator \<Rightarrow> run \<times> string option" where
  "Recover orc =
     (if os_Status (orch_state orc) \<noteq> ''in_progress'' \<and> os_Status (orch_state orc) \<noteq> ''completed''
      then ((orc, []), Some ''nothing to recover'')
      else
        (saved (update_state (\<lambda>s. s\<lparr>os_Status := ''idle'', os_CompletedActions := []\<rparr>)
           (saved (update_state (\<lambda>s. s\<lparr>os_Status := ''recovering''\<rparr>) (orc, [])))),
         None))"

text \<open>
  A run is steady at the status \<open>s\<close> when the state has that status, something has been
  saved, and every state saved so far has that status.
\<close>

definition steady :: "string \<Rightarrow> run \<Rightarrow> bool" where
  "steady s r = (os_Status (orch_state (fst r)) = s \<and> snd r \<noteq> [] \<and>
                 (\<forall>x\<in>set (snd r). os_Status x = s))"

section \<open>Package recovery: the recovery manager\<close>

subsection \<open>Data\<close>

record RecoveryConfig =
  cfg_Enabled :: bool
  cfg_PowerStableDelay :: int
  cfg_OnError :: string
  cfg_MaxRetries :: int

record RecoveryManager =
  rm_config :: RecoveryConfig
  rm_stateManager :: Manager

definition NewRecoveryManager :: "RecoveryConfig \<Rightarrow> Manager \<Rightarrow> RecoveryManager" where
  "NewRecoveryManager cfg stateMgr =
     \<lparr>rm_config = (if cfg_MaxRetries cfg = 0 then cfg\<lparr>cfg_MaxRetries := 3\<rparr> else cfg),
      rm_stateManager = stateMgr\<rparr>"

text \<open>
  The outside world of a recovery. The executors are built by \<open>createExecutor\<close>, a fresh
  one for each action, and are \<^verbatim>\<open>SSHExecutor\<close> or \<^verbatim>\<open>LocalExecutor\<close>, whose \<^verbatim>\<open>Recover\<close> returns
  a result on every path, with or without an error: \<open>rw_Recover i k\<close> is what call number
  \<open>k\<close> of \<^verbatim>\<open>Recover\<close> returns for the action at position \<open>i\<close> of the list to recover.
  \<open>rw_done i k\<close> says that the wait after attempt \<open>k\<close> on that action ends by cancellation,
  \<open>rw_delayCancelled\<close> that the wait for stable power does, and \<open>rw_cerr\<close> is the message of
  \<^verbatim>\<open>ctx.Err()\<close>. \<open>rw_marshal\<close> and \<open>rw_fs\<close> are the marshaller and the file system of \<open>Save\<close>.
\<close>

record RWorld =
  rw_Recover :: "nat \<Rightarrow> nat \<Rightarrow> ActionResult \<times> string option"
  rw_done :: "nat \<Rightarrow> int \<Rightarrow> bool"
  rw_delayCancelled :: bool
  rw_cerr :: string
  rw_marshal :: "State \<Rightarrow> string + string"
  rw_fs :: "fs_op \<Rightarrow> string option"

subsection \<open>recoverAction\<close>

text \<open>
  The error of \<open>createExecutor\<close> (\<open>None\<close> when it builds an executor): only the kinds
  \<^verbatim>\<open>ssh\<close> and \<^verbatim>\<open>local\<close> can be rebuilt from the journal.
\<close>

definition createExecutor :: "ActionSpec \<Rightarrow> string option" where
  "createExecutor spec =
     (if spec_Type spec = ''ssh'' then None
      else if spec_Type spec = ''local'' then None
      else if spec_Type spec = ''proxmox-exec''
      then Some ''proxmox-exec recovery requires API connection - manual recovery needed''
      else if spec_Type spec = ''proxmox-guest''
      then Some ''proxmox-guest recovery requires API connection - manual recovery needed''
      else Some (''unknown action type: '' @ spec_Type spec))"

text \<open>
  The loop \<^verbatim>\<open>for attempt := 1; attempt <= m.config.MaxRetries; attempt++\<close> with \<^verbatim>\<open>lastErr\<close>
  as its state; the function returns \<^verbatim>\<open>lastErr\<close> when the loop runs out.
\<close>

function recover_loop ::
  "(nat \<Rightarrow> ActionResult \<times> string option) \<Rightarrow> (int \<Rightarrow> bool) \<Rightarrow> string \<Rightarrow> int \<Rightarrow> int \<Rightarrow>
   string option \<Rightarrow> string option"
where
  "recover_loop recover done cerr maxRetries attempt lastErr =
     (if attempt \<le> maxRetries then
        (case recover (nat (attempt - 1)) of
           (result, err) \<Rightarrow>
             if err = None \<and> res_Success result then None
             else if attempt < maxRetries \<and> done attempt then Some cerr
             else recover_loop recover done cerr maxRetries (attempt + 1)
                    (if \<not> res_Success result
                     then Some (''recovery failed: '' @ res_Error result)
                     else err))
      else lastErr)"
  by pat_completeness auto
termination
  by (relation "measure (\<lambda>(recover, done, cerr, maxRetries, attempt, lastErr).
        nat (maxRetries + 1 - attempt))") auto

declare recover_loop.simps [simp del]

definition recoverAction :: "RWorld \<Rightarrow> nat \<Rightarrow> int \<Rightarrow> CompletedAction \<Rightarrow> string option" where
  "recoverAction w i maxRetries action =
     (if spec_Recovery (ca_ActionSpec action) = [] then None
      else case createExecutor (ca_ActionSpec action) of
             Some err \<Rightarrow> Some (''creating executor: '' @ err)
           | None \<Rightarrow> recover_loop (rw_Recover w i) (rw_done w i) (rw_cerr w) maxRetries 1 None)"

subsection \<open>Execute\<close>

text \<open>
  The loop over the actions to recover collects the errors in \<^verbatim>\<open>recoveryErrors\<close>; whatever
  the policy \<^verbatim>\<open>OnError\<close>, which only decides on a notification, it goes on with the next
  action. \<open>i\<close> is the position of the head of the actions still to recover.
\<close>

fun recover_all :: "RWorld \<Rightarrow> int \<Rightarrow> nat \<Rightarrow> CompletedAction list \<Rightarrow> string list \<Rightarrow> string list" where
  "recover_all w maxRetries i [] recoveryErrors = recoveryErrors"
| "recover_all w maxRetries i (action # rest) recoveryErrors =
     recover_all w maxRetries (Suc i) rest
       (case recoverAction w i maxRetries action of
          None \<Rightarrow> recoveryErrors
        | Some err \<Rightarrow> recoveryErrors @ [err])"

text \<open>
  \<open>RecoveryExecute\<close> is \<^verbatim>\<open>(*recovery.Manager).Execute\<close>. It returns the manager, the calls
  of \<open>Save\<close> in order, each as the state that was handed to \<open>Save\<close> with the calls that
  \<open>Save\<close> made on the file system, and the error (or the panic of \<open>Save\<close> on a path that is
  too short). An error of \<open>Save\<close> is logged and otherwise ignored.
\<close>

definition RecoveryExecute ::
  "RWorld \<Rightarrow> RecoveryManager \<Rightarrow>
   (RecoveryManager \<times> (State \<times> fs_op list) list) \<times> string option ret"
where
  "RecoveryExecute w rm =
     (if \<not> cfg_Enabled (rm_config rm) then ((rm, []), Ret (Some ''recovery is disabled''))
      else if st_Status (GetState (rm_stateManager rm)) \<noteq> StatusInProgress \<and>
              st_Status (GetState (rm_stateManager rm)) \<noteq> StatusFailed
      then ((rm, []),
            Ret (Some (''nothing to recover (status: '' @
                        st_Status (GetState (rm_stateManager rm)) @ '')'')))
      else
        (let m1 = SetStatus StatusRecovering (rm_stateManager rm)
         in case Save (rw_marshal w) (rw_fs w) m1 of
              None \<Rightarrow> ((rm\<lparr>rm_stateManager := m1\<rparr>, []), Panic)
            | Some (ops1, err1) \<Rightarrow>
                if 0 < cfg_PowerStableDelay (rm_config rm) \<and> rw_delayCancelled w
                then ((rm\<lparr>rm_stateManager := m1\<rparr>, [(state m1, ops1)]), Ret (Some (rw_cerr w)))
                else
                  (let actionsToRecover = GetActionsForRecovery m1;
                       recoveryErrors =
                         recover_all w (cfg_MaxRetries (rm_config rm)) 0 actionsToRecover [];
                       m2 = (if recoveryErrors = []
                             then Clear (SetStatus StatusIdle m1)
                             else SetError (fmt_d (int (length recoveryErrors)) @ '' recovery errors'')
                                    (SetStatus StatusFailed m1))
                   in case Save (rw_marshal w) (rw_fs w) m2 of
                        None \<Rightarrow> ((rm\<lparr>rm_stateManager := m2\<rparr>, [(state m1, ops1)]), Panic)
                      | Some (ops2, err2) \<Rightarrow>
                          ((rm\<lparr>rm_stateManager := m2\<rparr>, [(state m1, ops1), (state m2, ops2)]),
                           Ret (if recoveryErrors \<noteq> []
                                then Some (''recovery completed with '' @
                                           fmt_d (int (length recoveryErrors)) @ '' errors'')
                                else None)))))"

section \<open>The status of a session\<close>

text \<open>
  The transitions of the session status that the specification allows:
  idle to in-progress; in-progress to completed or failed; in-progress, completed or
  failed to recovering; recovering to idle or failed.
\<close>

definition spec_edge :: "Status \<Rightarrow> Status \<Rightarrow> bool" where
  "spec_edge a b =
     (a = StatusIdle \<and> b = StatusInProgress \<or>
      a = StatusInProgress \<and> (b = StatusCompleted \<or> b = StatusFailed) \<or>
      (a = StatusInProgress \<or> a = StatusCompleted \<or> a = StatusFailed) \<and> b = StatusRecovering \<or>
      a = StatusRecovering \<and> (b = StatusIdle \<or> b = StatusFailed))"

text \<open>
  A sequence of statuses stays within a set of edges when every step of it that changes
  the status is an edge.
\<close>

definition within_edges :: "(Status \<Rightarrow> Status \<Rightarrow> bool) \<Rightarrow> Status list \<Rightarrow> bool" where
  "within_edges edge statuses = successively (\<lambda>a b. a = b \<or> edge a b) statuses"

text \<open>
  The statuses that a session goes through in one operation: the status before, the
  status of every state saved during the operation, and the status after. (Every change of
  the status inside \<open>Execute\<close>, \<open>Recover\<close> and \<open>RecoveryExecute\<close> is followed by a save
  before the next change; \<open>Clear\<close> does not save.)
\<close>

definition Execute_statuses :: "World \<Rightarrow> string \<Rightarrow> string \<Rightarrow> Orchestrator \<Rightarrow> Status list" where
  "Execute_statuses w sessionID triggerEvent orc =
     os_Status (orch_state orc) #
     map os_Status (snd (fst (Execute w sessionID triggerEvent orc))) @
     [os_Status (orch_state (fst (fst (Execute w sessionID triggerEvent orc))))]"

definition Recover_statuses :: "Orchestrator \<Rightarrow> Status list" where
  "Recover_statuses orc =
     os_Status (orch_state orc) #
     map os_Status (snd (fst (Recover orc))) @
     [os_Status (orch_state (fst (fst (Recover orc))))]"

definition RecoveryExecute_statuses :: "RWorld \<Rightarrow> RecoveryManager \<Rightarrow> Status list" where
  "RecoveryExecute_statuses w rm =
     st_Status (state (rm_stateManager rm)) #
     map (\<lambda>(saved_state, calls). st_Status saved_state) (snd (fst (RecoveryExecute w rm))) @
     [st_Status (state (rm_stateManager (fst (fst (RecoveryExecute w rm)))))]"

definition Clear_statuses :: "Manager \<Rightarrow> Status list" where
  "Clear_statuses m = [st_Status (state m), st_Status (state (Clear m))]"

section \<open>Concrete inputs\<close>

text \<open>
  Inputs on which the definitions are run in the sequel. The run of the monitor is the
  sequence of samples online, online, on battery at 55, 25 and 8 percent, online again,
  under the thresholds 30, 20 and 10.
\<close>

definition demo_sample :: "string \<Rightarrow> int \<Rightarrow> tick" where
  "demo_sample flags charge =
     \<lparr>tk_sample = Some \<lparr>ups_Name = ''ups'', ups_Status = flags, ups_BatteryCharge = charge,
                          ups_Runtime = 600, ups_Load = 40\<rparr>,
      tk_statusReads = 1, tk_eventReads = 2\<rparr>"

definition demo_run :: "tick list" where
  "demo_run = [demo_sample ''OL'' 100, demo_sample ''OL'' 100, demo_sample ''OB'' 55,
               demo_sample ''OB'' 25, demo_sample ''OB'' 8, demo_sample ''OL'' 9]"

definition demo_thresholds :: Thresholds where
  "demo_thresholds = \<lparr>th_Warning = 30, th_Critical = 20, th_Emergency = 10\<rparr>"

text \<open>
  A run in which the consumer of the event channel reads nothing: one sample online,
  ten samples on battery at 25 percent, one online, one on battery at 25 percent.
\<close>

definition stalled_sample :: "string \<Rightarrow> int \<Rightarrow> tick" where
  "stalled_sample flags charge =
     \<lparr>tk_sample = Some \<lparr>ups_Name = ''ups'', ups_Status = flags, ups_BatteryCharge = charge,
                          ups_Runtime = 600, ups_Load = 40\<rparr>,
      tk_statusReads = 0, tk_eventReads = 0\<rparr>"

definition stalled_run :: "tick list" where
  "stalled_run =
     stalled_sample ''OL'' 100 # replicate 10 (stalled_sample ''OB'' 25) @
     [stalled_sample ''OL'' 100, stalled_sample ''OB'' 25]"


text \<open>
  A plan of two sequential phases. The only action of the first phase runs a local command
  that exits with status 1 and has the policy \<^verbatim>\<open>abort_all\<close>; the only action of the second
  phase succeeds. The executors answer as \<^verbatim>\<open>LocalExecutor\<close> does on these commands.
\<close>

definition failing_local :: Executor where
  "failing_local =
     \<lparr>ex_Execute = (\<lambda>k. (Some \<lparr>res_Success = False, res_Output = [],
                                 res_Error = ''exit status 1: '', res_Retries = 0\<rparr>,
                          Some ''exit status 1'')),
      ex_Recover = (\<lambda>k. (Some \<lparr>res_Success = True, res_Output = ''no recovery command defined'',
                                 res_Error = [], res_Retries = 0\<rparr>, None)),
      ex_Healthcheck = (\<lambda>k. (True, None)),
      ex_String = ''Local: exit 1''\<rparr>"

definition succeeding_local :: Executor where
  "succeeding_local =
     \<lparr>ex_Execute = (\<lambda>k. (Some \<lparr>res_Success = True, res_Output = [CHR ''b'', CHR 0x0A], res_Error = [],
                                 res_Retries = 0\<rparr>, None)),
      ex_Recover = (\<lambda>k. (Some \<lparr>res_Success = True, res_Output = ''no recovery command defined'',
                                 res_Error = [], res_Retries = 0\<rparr>, None)),
      ex_Healthcheck = (\<lambda>k. (True, None)),
      ex_String = ''Local: echo b''\<rparr>"

definition abort_all_plan :: "Phase list" where
  "abort_all_plan =
     [\<lparr>ph_Name = ''p1'', ph_Parallel = False, ph_Timeout = 0, ph_Condition = [],
       ph_Actions = [\<lparr>act_Type = ''local'', act_Executor = failing_local, act_Recovery = [],
                      act_OnError = ''abort_all'', act_Retry = None, act_Healthcheck = None\<rparr>]\<rparr>,
      \<lparr>ph_Name = ''p2'', ph_Parallel = False, ph_Timeout = 0, ph_Condition = [],
       ph_Actions = [\<lparr>act_Type = ''local'', act_Executor = succeeding_local, act_Recovery = [],
                      act_OnError = ''continue'', act_Retry = None, act_Healthcheck = None\<rparr>]\<rparr>]"

definition quiet_world :: World where
  "quiet_world =
     \<lparr>w_done = (\<lambda>p a k. False), w_cerr = ''context canceled'', w_marshal = (\<lambda>s. Inr ''{}''),
      w_fs = (\<lambda>call. None), w_rank = (\<lambda>p a. a)\<rparr>"

text \<open>
  A journal with the actions A, B and C appended in this order, all successful, with the
  recovery commands \<^verbatim>\<open>ra\<close>, none, and \<^verbatim>\<open>rc\<close>; two worlds for its recovery, one in which every
  recovery command succeeds and one in which the first action to recover (C) fails on
  every attempt; and the recovery manager over that journal. In these worlds the file
  system accepts every call, and the marshaller stands for \<^verbatim>\<open>json.MarshalIndent\<close> by
  rendering a state as its session id and its status.
\<close>

definition local_action :: "int \<Rightarrow> string \<Rightarrow> string \<Rightarrow> CompletedAction" where
  "local_action i command recovery =
     \<lparr>ca_PhaseIndex = 0, ca_PhaseName = ''p1'', ca_ActionIndex = i, ca_ActionType = ''local'',
      ca_ActionSpec = \<lparr>spec_Type = ''local'', spec_Host = [], spec_User = [], spec_Guest = [],
                       spec_Command = command, spec_Recovery = recovery, spec_Action = [],
                       spec_Selector = None\<rparr>,
      ca_Success = True, ca_Output = [], ca_Error = []\<rparr>"

definition journal_ABC :: Manager where
  "journal_ABC =
     \<lparr>filePath = ''/var/lib/proxmox-guardian/state.json'',
      state = \<lparr>st_SessionID = ''1'', st_Status = StatusInProgress,
               st_TriggerEvent = ''battery at 15%'', st_CurrentPhase = 0, st_CurrentAction = 2,
               st_CompletedActions = [local_action 0 ''a'' ''ra'', local_action 1 ''b'' [],
                                      local_action 2 ''c'' ''rc''],
               st_LastError = []\<rparr>\<rparr>"

definition calm_recovery :: RWorld where
  "calm_recovery =
     \<lparr>rw_Recover = (\<lambda>i k. (\<lparr>res_Success = True, res_Output = [], res_Error = [],
                              res_Retries = 0\<rparr>, None)),
      rw_done = (\<lambda>i k. False), rw_delayCancelled = False, rw_cerr = ''context canceled'',
      rw_marshal = (\<lambda>s. Inr (st_SessionID s @ '':'' @ st_Status s)), rw_fs = (\<lambda>call. None)\<rparr>"

definition failing_recovery :: RWorld where
  "failing_recovery =
     calm_recovery\<lparr>rw_Recover :=
       (\<lambda>i k. if i = 0
               then (\<lparr>res_Success = False, res_Output = [], res_Error = ''exit status 1: '',
                      res_Retries = 0\<rparr>, Some ''exit status 1'')
               else (\<lparr>res_Success = True, res_Output = [], res_Error = [], res_Retries = 0\<rparr>,
                     None))\<rparr>"

definition recovery_ABC :: RecoveryManager where
  "recovery_ABC =
     NewRecoveryManager
       \<lparr>cfg_Enabled = True, cfg_PowerStableDelay = 30, cfg_OnError = ''notify'',
        cfg_MaxRetries = 0\<rparr>
       journal_ABC"

text \<open>
  The world of \<open>calm_recovery\<close> with the context cancelled during the wait for stable power;
  a world in which every recovery command fails on every attempt; and a recovery manager
  over the same journal built with \<^verbatim>\<open>MaxRetries: -1\<close>, which \<^verbatim>\<open>NewManager\<close> leaves as it is.
\<close>

definition cancelled_recovery :: RWorld where
  "cancelled_recovery = calm_recovery\<lparr>rw_delayCancelled := True\<rparr>"

definition hopeless_recovery :: RWorld where
  "hopeless_recovery =
     calm_recovery\<lparr>rw_Recover :=
       (\<lambda>i k. (\<lparr>res_Success = False, res_Output = [], res_Error = ''exit status 1: '',
                 res_Retries = 0\<rparr>, Some ''exit status 1''))\<rparr>"

definition recovery_no_attempts :: RecoveryManager where
  "recovery_no_attempts =
     NewRecoveryManager
       \<lparr>cfg_Enabled = True, cfg_PowerStableDelay = 30, cfg_OnError = ''notify'',
        cfg_MaxRetries = - 1\<rparr>
       journal_ABC"

text \<open>An orchestrator with an empty plan after one run of \<open>Execute\<close>.\<close>

definition orchestrator_after_run :: Orchestrator where
  "orchestrator_after_run =
     fst (fst (Execute quiet_world ''1'' ''battery at 15%''
                 (NewOrchestrator [] ''/var/lib/proxmox-guardian/state.json'')))"

chapter \<open>Properties\<close>

section \<open>Properties of the journal\<close>

subsection \<open>The reversal loop computes \<open>rev\<close>\<close>

lemma reverse_loop_length: "length (reverse_loop xs i j) = length xs"
proof (induction xs i j rule: reverse_loop.induct)
  case (1 xs i j)
  show ?case
  proof (cases "i < j")
    case True
    with 1 show ?thesis by (subst reverse_loop.simps) simp
  next
    case False
    then show ?thesis by (subst reverse_loop.simps) simp
  qed
qed

lemma reverse_loop_nth:
  "0 \<le> i \<Longrightarrow> j < int (length xs) \<Longrightarrow> k < length xs \<Longrightarrow>
   reverse_loop xs i j ! k =
     (if i \<le> int k \<and> int k \<le> j then xs ! nat (i + j - int k) else xs ! k)"
proof (induction xs i j rule: reverse_loop.induct)
  case (1 xs i j)
  show ?case
  proof (cases "i < j")
    case True
    let ?ys = "xs[nat i := xs ! nat j, nat j := xs ! nat i]"
    have step: "reverse_loop xs i j = reverse_loop ?ys (i + 1) (j - 1)"
      using True by (subst reverse_loop.simps) simp
    have ih: "reverse_loop ?ys (i + 1) (j - 1) ! k =
      (if i + 1 \<le> int k \<and> int k \<le> j - 1
       then ?ys ! nat (i + 1 + (j - 1) - int k) else ?ys ! k)"
      using 1 True by simp
    show ?thesis
      using 1(2,3,4) True unfolding step ih
      by (auto simp: nth_list_update nat_eq_iff)
  next
    case False
    have "reverse_loop xs i j = xs"
      using False by (subst reverse_loop.simps) simp
    moreover have "i \<le> int k \<and> int k \<le> j \<Longrightarrow> nat (i + j - int k) = k"
      using False by auto
    ultimately show ?thesis by auto
  qed
qed

lemma reverse_loop_rev: "reverse_loop xs 0 (int (length xs) - 1) = rev xs"
proof (rule nth_equalityI)
  show "length (reverse_loop xs 0 (int (length xs) - 1)) = length (rev xs)"
    by (simp add: reverse_loop_length)
next
  fix k
  assume "k < length (reverse_loop xs 0 (int (length xs) - 1))"
  then have k: "k < length xs"
    by (simp add: reverse_loop_length)
  have "nat (int (length xs) - 1 - int k) = length xs - Suc k"
    using k by auto
  then show "reverse_loop xs 0 (int (length xs) - 1) ! k = rev xs ! k"
    using k by (simp add: reverse_loop_nth rev_nth)
qed

lemma collect_recoverable_filter:
  "collect_recoverable actions acc =
     acc @ filter (\<lambda>a. ca_Success a \<and> spec_Recovery (ca_ActionSpec a) \<noteq> []) actions"
  by (induction actions arbitrary: acc) simp_all

text \<open>
  Claim C5. For every session state, \<open>GetActionsForRecovery\<close> returns exactly the completed
  actions whose success flag is set and whose recovery command is not empty, in the reverse
  of the order in which they stand in the journal (the order of appending).
\<close>

theorem C5_GetActionsForRecovery_rev_filter:
  "GetActionsForRecovery m =
     rev (filter (\<lambda>a. ca_Success a \<and> spec_Recovery (ca_ActionSpec a) \<noteq> [])
            (st_CompletedActions (state m)))"
  by (simp add: GetActionsForRecovery_def Let_def collect_recoverable_filter reverse_loop_rev)

section \<open>Properties of the journal updates\<close>

text \<open>
  Claim C2, as stated in the specification, asks every journal update to follow
  \<open>spec_atomic_update\<close>. The code does not: at the default path, with a marshaller that
  returns two bytes and a file system that accepts every call, \<open>Save\<close> makes the directory
  and writes the state file itself, and \<open>saveState\<close> writes the state file itself. No
  temporary file is created, nothing is flushed and nothing is renamed.
\<close>

theorem C2_counterexample_state_file_written_in_place:
  "Save (\<lambda>_. Inr ''{}'') (\<lambda>_. None) (NewManager ''/var/lib/proxmox-guardian/state.json'') =
     Some ([MkdirAll ''/var/lib/proxmox-guardian'' 488,
            WriteFile ''/var/lib/proxmox-guardian/state.json'' ''{}'' 384], None)
   \<and> \<not> spec_atomic_update ''/var/lib/proxmox-guardian/state.json'' ''{}''
         [MkdirAll ''/var/lib/proxmox-guardian'' 488,
          WriteFile ''/var/lib/proxmox-guardian/state.json'' ''{}'' 384]
   \<and> saveState (\<lambda>_. Inr ''{}'') (\<lambda>_. None)
         (NewOrchestrator [] ''/var/lib/proxmox-guardian/state.json'') =
       ([WriteFile ''/var/lib/proxmox-guardian/state.json'' ''{}'' 384], None)
   \<and> \<not> spec_atomic_update ''/var/lib/proxmox-guardian/state.json'' ''{}''
         [WriteFile ''/var/lib/proxmox-guardian/state.json'' ''{}'' 384]"
  by (simp add: Save_def saveState_def NewManager_def NewOrchestrator_def spec_atomic_update_def
        perm_0750_def perm_0600_def)

text \<open>
  Claim C2, amended. Every journal update renders the whole state with the marshaller and
  writes it to the state file in place, by one call of \<^verbatim>\<open>os.WriteFile\<close> on the state file
  with file mode 0600: a successful \<open>Save\<close> makes exactly the calls \<^verbatim>\<open>MkdirAll(dir, 0750)\<close>
  and \<^verbatim>\<open>WriteFile(filePath, data, 0600)\<close>, a \<open>saveState\<close> that returns no error makes exactly
  the call \<^verbatim>\<open>WriteFile(stateFile, data, 0600)\<close>, where \<open>data\<close> is the marshalled state; and
  no run of either, failed or not, creates a temporary file, flushes or renames.
\<close>

theorem C2_journal_update_is_one_WriteFile_in_place:
  "(Save marshal fs m = Some (ops, None) \<longrightarrow>
      (\<exists>data. marshal (state m) = Inr data \<and>
         ops = [MkdirAll (take (length (filePath m) - length ''/state.json'') (filePath m)) perm_0750,
                WriteFile (filePath m) data perm_0600]))
   \<and> (Save marshal fs m = Some (ops, err) \<longrightarrow>
      (\<forall>op\<in>set ops. case op of
           MkdirAll dir perm \<Rightarrow> perm = perm_0750
         | WriteFile name data perm \<Rightarrow>
             name = filePath m \<and> marshal (state m) = Inr data \<and> perm = perm_0600
         | _ \<Rightarrow> False))
   \<and> (saveState omarshal fs orc = (ops', None) \<longrightarrow>
      (\<exists>data. omarshal (orch_state orc) = Inr data \<and>
         ops' = [WriteFile (orch_stateFile orc) data perm_0600]))
   \<and> (saveState omarshal fs orc = (ops', err') \<longrightarrow>
      (\<forall>op\<in>set ops'. case op of
           WriteFile name data perm \<Rightarrow>
             name = orch_stateFile orc \<and> omarshal (orch_state orc) = Inr data \<and> perm = perm_0600
         | _ \<Rightarrow> False))"
  by (auto simp: Save_def saveState_def Let_def split: if_splits option.splits sum.splits)

theorem C2_witness_default_path:
  "Save (\<lambda>_. Inr ''{}'') (\<lambda>_. None) (NewManager ''/var/lib/proxmox-guardian/state.json'') =
     Some ([MkdirAll ''/var/lib/proxmox-guardian'' perm_0750,
            WriteFile ''/var/lib/proxmox-guardian/state.json'' ''{}'' perm_0600], None)
   \<and> saveState (\<lambda>_. Inr ''{}'') (\<lambda>_. None)
         (NewOrchestrator [] ''/var/lib/proxmox-guardian/state.json'') =
       ([WriteFile ''/var/lib/proxmox-guardian/state.json'' ''{}'' perm_0600], None)"
  using C2_journal_update_is_one_WriteFile_in_place
    [where marshal = "\<lambda>_. Inr ''{}''" and fs = "\<lambda>_. None"
       and m = "NewManager ''/var/lib/proxmox-guardian/state.json''"
       and ops = "[MkdirAll ''/var/lib/proxmox-guardian'' perm_0750,
            WriteFile ''/var/lib/proxmox-guardian/state.json'' ''{}'' perm_0600]"
       and omarshal = "\<lambda>_. Inr ''{}''"
       and orc = "NewOrchestrator [] ''/var/lib/proxmox-guardian/state.json''"
       and ops' = "[WriteFile ''/var/lib/proxmox-guardian/state.json'' ''{}'' perm_0600]"]
  by (simp add: Save_def saveState_def NewManager_def NewOrchestrator_def)

section \<open>Properties of the retry wrapper\<close>

subsection \<open>Single rounds of the loop\<close>

lemma attempt_fails_cases:
  assumes "attempt_fails out"
  obtains (bad) result where "out = (Some result, None)" "\<not> res_Success result"
        | (err) result e where "out = (result, Some e)"
  using assms unfolding attempt_fails_def
  by (cases out) (auto split: option.splits)


lemma retry_loop_success_step:
  "attempt \<le> attempts \<Longrightarrow> exec (nat (attempt - 1)) = (Some r, None) \<Longrightarrow> res_Success r \<Longrightarrow>
   retry_loop exec done cerr attempts attempt lastResult lastErr =
     Returned (nat attempt) (Some (r\<lparr>res_Retries := attempt - 1\<rparr>)) None"
  by (subst retry_loop.simps) simp

lemma retry_loop_fail_step:
  assumes "attempt \<le> attempts" "attempt_fails (exec (nat (attempt - 1)))"
    and "attempt < attempts \<Longrightarrow> \<not> done attempt"
  shows "retry_loop exec done cerr attempts attempt lastResult lastErr =
     retry_loop exec done cerr attempts (attempt + 1)
       (fst (exec (nat (attempt - 1)))) (snd (exec (nat (attempt - 1))))"
  using assms(2)
proof (cases rule: attempt_fails_cases)
  case (bad result)
  then show ?thesis using assms(1,3) by (subst retry_loop.simps) auto
next
  case (err result e)
  then show ?thesis using assms(1,3) by (subst retry_loop.simps) (auto split: option.splits)
qed

lemma retry_loop_succeeds:
  assumes ok: "exec M = (Some r, None)" "res_Success r"
    and fails: "\<forall>k<M. attempt_fails (exec k)"
    and less: "int M < N"
    and live: "\<forall>k. 1 \<le> k \<and> k \<le> int M \<longrightarrow> \<not> done k"
  shows "1 \<le> a \<Longrightarrow> a \<le> int M + 1 \<Longrightarrow>
    retry_loop exec done cerr N a lr le = Returned (Suc M) (Some (r\<lparr>res_Retries := int M\<rparr>)) None"
proof (induction "nat (int M + 1 - a)" arbitrary: a lr le)
  case 0
  then have a: "a = int M + 1" by simp
  have "nat (a - 1) = M" "nat a = Suc M" "a - 1 = int M" "a \<le> N" using a less by auto
  then show ?case using retry_loop_success_step[of a N exec r "done" cerr lr le] ok by simp
next
  case (Suc n)
  then have a: "a \<le> int M" "1 \<le> a" by auto
  then have "nat (a - 1) < M" by auto
  then have f: "attempt_fails (exec (nat (a - 1)))" using fails by blast
  have nd: "\<not> done a" using live a by blast
  have "retry_loop exec done cerr N a lr le =
      retry_loop exec done cerr N (a + 1) (fst (exec (nat (a - 1)))) (snd (exec (nat (a - 1))))"
    using retry_loop_fail_step[of a N exec "done" cerr lr le] f nd a less by simp
  also have "\<dots> = Returned (Suc M) (Some (r\<lparr>res_Retries := int M\<rparr>)) None"
    using Suc(1)[of "a + 1"] Suc(2) a by simp
  finally show ?case .
qed


subsection \<open>The retry count on success\<close>

text \<open>
  Claim C4 says that for every policy with \<open>Attempts = N\<close> and every executor that fails on
  its first \<open>M < N\<close> calls and then succeeds, the result returned has \<open>Retries = M\<close>. With
  \<open>Attempts = 1\<close> (so \<open>M = 0\<close>) the wrapper does not enter its loop: it returns what
  \<^verbatim>\<open>exec.Execute\<close> returned, untouched. An executor whose successful result carries 7 in
  the field gets 7 back, not 0.
\<close>

theorem C4_counterexample_single_attempt_keeps_executor_retries:
  "ExecuteWithRetry
     (\<lambda>k. (Some \<lparr>res_Success = True, res_Output = ''success'', res_Error = [],
                  res_Retries = 7\<rparr>, None))
     (\<lambda>_. False) ''context canceled''
     (Some \<lparr>rc_Attempts = 1, rc_Delay = 10000000, rc_Backoff = ''linear''\<rparr>) =
   Returned 1
     (Some \<lparr>res_Success = True, res_Output = ''success'', res_Error = [], res_Retries = 7\<rparr>)
     None
   \<and> res_Retries \<lparr>res_Success = True, res_Output = ''success'', res_Error = [],
                    res_Retries = 7\<rparr> \<noteq> int 0"
  by (simp add: ExecuteWithRetry_def)

text \<open>
  Claim C4, amended. Let the retry policy have \<open>Attempts = N\<close> and let the executor fail (a
  result that is no success, or an error) on its first \<open>M < N\<close> calls and succeed on the
  next one with the result \<open>r\<close>, no wait between these attempts being cut by cancellation.
  Then \<open>ExecuteWithRetry\<close> returns after \<open>M + 1\<close> calls, with no error: for \<open>N \<ge> 2\<close> the
  result \<open>r\<close> with its \<open>Retries\<close> field set to \<open>M\<close>; for \<open>N = 1\<close> (where \<open>M = 0\<close>) the result
  \<open>r\<close> untouched, its \<open>Retries\<close> field as the executor left it.
\<close>

theorem C4_retry_success_records_failures_from_two_attempts:
  assumes "rc_Attempts rc = N" and "int M < N"
    and "\<forall>k<M. attempt_fails (exec k)"
    and "exec M = (Some r, None)" and "res_Success r"
    and "\<forall>k. 1 \<le> k \<and> k \<le> int M \<longrightarrow> \<not> done k"
  shows "ExecuteWithRetry exec done cerr (Some rc) =
           Returned (Suc M) (Some (if 2 \<le> N then r\<lparr>res_Retries := int M\<rparr> else r)) None"
proof (cases "2 \<le> N")
  case True
  have "retry_loop exec done cerr N 1 None None =
          Returned (Suc M) (Some (r\<lparr>res_Retries := int M\<rparr>)) None"
    using retry_loop_succeeds[OF assms(4,5,3,2,6), of 1 cerr None None] by simp
  then show ?thesis
    using True assms(1) by (simp add: ExecuteWithRetry_def)
next
  case False
  then have "N = 1" "M = 0"
    using assms(2) by auto
  then show ?thesis
    using assms(1,4) by (simp add: ExecuteWithRetry_def)
qed

theorem C4_witness_fail_twice_then_succeed:
  "ExecuteWithRetry
     (\<lambda>k. if k < 2
          then (Some \<lparr>res_Success = False, res_Output = [], res_Error = ''simulated failure'',
                      res_Retries = 0\<rparr>, None)
          else (Some \<lparr>res_Success = True, res_Output = ''success'', res_Error = [],
                      res_Retries = 0\<rparr>, None))
     (\<lambda>_. False) ''context canceled''
     (Some \<lparr>rc_Attempts = 3, rc_Delay = 10000000, rc_Backoff = ''linear''\<rparr>) =
   Returned 3
     (Some \<lparr>res_Success = True, res_Output = ''success'', res_Error = [], res_Retries = 2\<rparr>)
     None
   \<and>
   ExecuteWithRetry
     (\<lambda>k. (Some \<lparr>res_Success = True, res_Output = ''success'', res_Error = [],
                  res_Retries = 7\<rparr>, None))
     (\<lambda>_. False) ''context canceled''
     (Some \<lparr>rc_Attempts = 1, rc_Delay = 10000000, rc_Backoff = ''linear''\<rparr>) =
   Returned 1
     (Some \<lparr>res_Success = True, res_Output = ''success'', res_Error = [], res_Retries = 7\<rparr>)
     None"
  using C4_retry_success_records_failures_from_two_attempts
    [where rc = "\<lparr>rc_Attempts = 3, rc_Delay = 10000000, rc_Backoff = ''linear''\<rparr>"
       and N = 3 and M = 2
       and r = "\<lparr>res_Success = True, res_Output = ''success'', res_Error = [], res_Retries = 0\<rparr>"
       and exec = "\<lambda>k. if k < 2
          then (Some \<lparr>res_Success = False, res_Output = [], res_Error = ''simulated failure'',
                      res_Retries = 0\<rparr>, None)
          else (Some \<lparr>res_Success = True, res_Output = ''success'', res_Error = [],
                      res_Retries = 0\<rparr>, None)"
       and ?done = "\<lambda>_. False" and cerr = "''context canceled''"]
    C4_retry_success_records_failures_from_two_attempts
    [where rc = "\<lparr>rc_Attempts = 1, rc_Delay = 10000000, rc_Backoff = ''linear''\<rparr>"
       and N = 1 and M = 0
       and r = "\<lparr>res_Success = True, res_Output = ''success'', res_Error = [], res_Retries = 7\<rparr>"
       and exec = "\<lambda>k. (Some \<lparr>res_Success = True, res_Output = ''success'', res_Error = [],
                  res_Retries = 7\<rparr>, None)"
       and ?done = "\<lambda>_. False" and cerr = "''context canceled''"]
  by (simp add: attempt_fails_def)

subsection \<open>The retry count on exhaustion, and the pass-through\<close>



section \<open>Properties of the UPS monitor\<close>

subsection \<open>Sending, and single ticks\<close>

lemma emitEvents_Nil: "emitEvents [] m = m"
  by (simp add: emitEvents_def)

lemma emitEvents_Cons: "emitEvents (e # es) m = emitEvents es (emitEvent e m)"
  by (simp add: emitEvents_def)

lemma emitEvents_room:
  "length (mon_eventCh m) + length es \<le> chan_cap \<Longrightarrow>
   emitEvents es m = m\<lparr>mon_eventCh := mon_eventCh m @ es\<rparr>"
proof (induction es arbitrary: m)
  case Nil
  then show ?case by (simp add: emitEvents_Nil)
next
  case (Cons e es)
  then have "emitEvent e m = m\<lparr>mon_eventCh := mon_eventCh m @ [e]\<rparr>"
    by (simp add: emitEvent_def)
  then show ?case using Cons by (simp add: emitEvents_Cons)
qed

lemma emitEvents_thresholds: "mon_thresholds (emitEvents es m) = mon_thresholds m"
  by (induction es arbitrary: m) (simp_all add: emitEvents_Nil emitEvents_Cons emitEvent_def)


lemma checkEvents_first:
  "map ev_Type (checkEvents th current None) = cascade th current"
  by (simp add: checkEvents_def cascade_def)

lemma checkEvents_length: "length (checkEvents th current last_sample) \<le> 3"
  by (simp add: checkEvents_def split: option.splits)

lemma checkEvents_power_lost:
  "length (filter (\<lambda>e. ev_Type e = EventPowerLost) (checkEvents th current last_sample)) =
     (case last_sample of None \<Rightarrow> 0 | Some l \<Rightarrow> if IsOnline l \<and> IsOnBattery current then 1 else 0)"
  by (simp add: checkEvents_def split: option.splits)

lemma monitorLoop_failed_reads:
  "\<forall>t\<in>set fails. tk_sample t = None \<Longrightarrow> mon_statusCh m = [] \<Longrightarrow> mon_eventCh m = [] \<Longrightarrow>
   monitorLoop m lastStatus calls (fails @ rest) = monitorLoop m lastStatus calls rest"
proof (induction fails)
  case Nil
  then show ?case by simp
next
  case (Cons t fails)
  have eq: "m\<lparr>mon_statusCh := drop (tk_statusReads t) (mon_statusCh m),
          mon_eventCh := drop (tk_eventReads t) (mon_eventCh m)\<rparr> = m"
    using Cons.prems by simp
  have t: "tk_sample t = None"
    using Cons.prems by simp
  have "monitorLoop m lastStatus calls ((t # fails) @ rest) =
        monitorLoop m lastStatus calls (fails @ rest)"
    by (simp add: Let_def eq t)
  then show ?case using Cons by simp
qed

lemma monitorLoop_first_sample:
  assumes "\<forall>t\<in>set fails. tk_sample t = None" and "tk_sample t = Some s"
  shows "monitorLoop (NewMonitor th) None [] (fails @ [t]) =
     (\<lparr>mon_thresholds = th, mon_statusCh = [s], mon_eventCh = checkEvents th s None\<rparr>,
      Some s, checkEvents th s None)"
proof -
  have len: "length (checkEvents th s None) \<le> chan_cap"
    using checkEvents_length[of th s None] by (simp add: chan_cap_def)
  have "monitorLoop (NewMonitor th) None [] (fails @ [t]) = monitorLoop (NewMonitor th) None [] [t]"
    using assms(1) by (simp add: monitorLoop_failed_reads NewMonitor_def)
  also have "\<dots> = (\<lparr>mon_thresholds = th, mon_statusCh = [s], mon_eventCh = checkEvents th s None\<rparr>,
      Some s, checkEvents th s None)"
    using assms(2) len by (simp add: NewMonitor_def Let_def emitEvents_room chan_cap_def)
  finally show ?thesis .
qed

lemma monitorLoop_thresholds:
  "mon_thresholds (fst (monitorLoop m l calls ticks)) = mon_thresholds m"
  by (induction ticks arbitrary: m l calls)
     (simp_all add: Let_def emitEvents_thresholds split: option.splits)

lemma monitorLoop_calls:
  "length (filter (\<lambda>e. ev_Type e = EventPowerLost) (snd (snd (monitorLoop m l calls ticks)))) =
   length (filter (\<lambda>e. ev_Type e = EventPowerLost) calls) + transitions l (samples_of ticks)"
proof (induction ticks arbitrary: m l calls)
  case Nil
  then show ?case by (simp add: samples_of_def)
next
  case (Cons t ticks)
  show ?case
  proof (cases "tk_sample t")
    case None
    then show ?thesis using Cons by (simp add: Let_def samples_of_def)
  next
    case (Some s)
    then show ?thesis
      using Cons by (simp add: Let_def samples_of_def checkEvents_power_lost split: option.splits)
  qed
qed


lemma transitions_zip:
  "transitions (Some l) ss =
     length (filter (\<lambda>(previous, current). IsOnline previous \<and> IsOnBattery current) (zip (l # ss) ss))"
  by (induction ss arbitrary: l) simp_all

lemma transitions_power_loss: "transitions None samples = power_loss_transitions samples"
  by (cases samples) (simp_all add: power_loss_transitions_def transitions_zip)

lemma emitEvents_take:
  "emitEvents es m = m\<lparr>mon_eventCh := mon_eventCh m @ take (chan_cap - length (mon_eventCh m)) es\<rparr>"
proof (induction es arbitrary: m)
  case Nil
  then show ?case by (simp add: emitEvents_Nil)
next
  case (Cons e es)
  show ?case
  proof (cases "length (mon_eventCh m) < chan_cap")
    case True
    then have "emitEvent e m = m\<lparr>mon_eventCh := mon_eventCh m @ [e]\<rparr>"
      by (simp add: emitEvent_def)
    moreover have "take (chan_cap - length (mon_eventCh m)) (e # es) =
        e # take (chan_cap - Suc (length (mon_eventCh m))) es"
      using True by (simp add: take_Cons')
    ultimately show ?thesis
      by (simp add: emitEvents_Cons Cons.IH)
  next
    case False
    then have "emitEvent e m = m" by (simp add: emitEvent_def)
    then show ?thesis
      using False by (simp add: emitEvents_Cons Cons.IH)
  qed
qed

lemma queued_events:
  "drop (length (mon_eventCh m)) (mon_eventCh (emitEvents es m)) =
     take (chan_cap - length (mon_eventCh m)) es"
  by (simp add: emitEvents_take)

lemma filter_take_short:
  assumes "length (filter P es) \<le> 1"
  shows "filter P (take k es) = [] \<or> filter P (take k es) = filter P es"
proof -
  have "filter P (take k es) @ filter P (drop k es) = filter P es"
    by (metis append_take_drop_id filter_append)
  moreover have "length (filter P (take k es)) + length (filter P (drop k es)) \<le> 1"
    using assms by (metis calculation length_append)
  ultimately show ?thesis
    by (cases "filter P (take k es)") auto
qed

lemma filter_take_empty: "filter P es = [] \<Longrightarrow> filter P (take k es) = []"
  by (auto simp: filter_empty_conv dest: in_set_takeD)

lemma checkEvents_shape:
  "\<exists>rest. filter (\<lambda>e. ev_Type e = EventPowerLost) rest = [] \<and>
     checkEvents th current last_sample =
       (case last_sample of
          None \<Rightarrow> []
        | Some l \<Rightarrow>
            if IsOnline l \<and> IsOnBattery current
            then [\<lparr>ev_Type = EventPowerLost, ev_Status = current,
                   ev_Message = ''Power lost, running on battery''\<rparr>]
            else []) @ rest"
  by (cases last_sample) (simp_all add: checkEvents_def)

lemma queued_power_lost:
  "length (filter (\<lambda>e. ev_Type e = EventPowerLost)
      (drop (length (mon_eventCh m))
         (mon_eventCh (emitEvents (checkEvents th current last_sample) m)))) =
   (case last_sample of
      None \<Rightarrow> 0
    | Some l \<Rightarrow>
        if IsOnline l \<and> IsOnBattery current \<and> length (mon_eventCh m) < chan_cap then 1 else 0)"
proof -
  obtain rest where rest: "filter (\<lambda>e. ev_Type e = EventPowerLost) rest = []"
    and shape: "checkEvents th current last_sample =
       (case last_sample of
          None \<Rightarrow> []
        | Some l \<Rightarrow>
            if IsOnline l \<and> IsOnBattery current
            then [\<lparr>ev_Type = EventPowerLost, ev_Status = current,
                   ev_Message = ''Power lost, running on battery''\<rparr>]
            else []) @ rest"
    using checkEvents_shape by blast
  have none: "filter (\<lambda>e. ev_Type e = EventPowerLost) (take k rest) = []" for k
    using rest by (rule filter_take_empty)
  show ?thesis
    unfolding queued_events shape
    by (cases last_sample) (auto simp: none take_Cons')
qed



lemma sublist_eval:
  "sublist (x # xs) (y # ys) = (prefix (x # xs) (y # ys) \<or> sublist (x # xs) ys)"
  by (rule sublist_code)

subsection \<open>Battery-level events\<close>




subsection \<open>Power-loss events\<close>

text \<open>
  Claim C7 says that for every pair of consecutive samples with the online flag on the
  first and the on-battery flag on the second the monitor emits exactly one PowerLost
  event. Whether the event leaves the monitor depends on the event channel. In
  \<open>stalled_run\<close> the consumer reads nothing. Power is lost twice, but by the second time
  the channel holds ten events, and the second PowerLost event is dropped: one PowerLost
  event is all that the monitor has ever put on the channel.
\<close>

theorem C7_counterexample_second_power_loss_dropped:
  "power_loss_transitions (samples_of stalled_run) = 2
   \<and> list_all (\<lambda>t. tk_eventReads t = 0) stalled_run
   \<and> map ev_Type (mon_eventCh (fst (monitorLoop (NewMonitor demo_thresholds) None [] stalled_run))) =
       [EventPowerLost, EventLowBattery, EventLowBattery, EventLowBattery, EventLowBattery,
        EventLowBattery, EventLowBattery, EventLowBattery, EventLowBattery, EventLowBattery]
   \<and> length (filter (\<lambda>e. ev_Type e = EventPowerLost)
         (mon_eventCh (fst (monitorLoop (NewMonitor demo_thresholds) None [] stalled_run)))) \<noteq>
       power_loss_transitions (samples_of stalled_run)"
  by code_simp

text \<open>
  Claim C7, amended. For every pair of consecutive samples with the online flag on the
  first and the on-battery flag on the second, \<open>checkEvents\<close> hands exactly one PowerLost
  event to \<^verbatim>\<open>emitEvent\<close>, and none in any other situation (none in particular when there is
  no previous sample); over a run of the sampling loop the PowerLost events handed to
  \<^verbatim>\<open>emitEvent\<close> are as many as such pairs among the successfully read samples. The event
  is queued on the event channel when the channel holds fewer than its 10 events at that
  moment, and is dropped otherwise.
\<close>

theorem C7_power_lost_once_per_transition_if_room:
  "length (filter (\<lambda>e. ev_Type e = EventPowerLost) (checkEvents th current last_sample)) =
     (case last_sample of
        None \<Rightarrow> 0
      | Some l \<Rightarrow> if IsOnline l \<and> IsOnBattery current then 1 else 0)
   \<and>
   length (filter (\<lambda>e. ev_Type e = EventPowerLost)
             (snd (snd (monitorLoop (NewMonitor th) None [] ticks)))) =
     power_loss_transitions (samples_of ticks)
   \<and>
   length (filter (\<lambda>e. ev_Type e = EventPowerLost)
      (drop (length (mon_eventCh m))
         (mon_eventCh (emitEvents (checkEvents th current last_sample) m)))) =
     (case last_sample of
        None \<Rightarrow> 0
      | Some l \<Rightarrow>
          if IsOnline l \<and> IsOnBattery current \<and> length (mon_eventCh m) < chan_cap
          then 1 else 0)"
  using monitorLoop_calls[of "NewMonitor th" None "[]" ticks]
  by (simp add: checkEvents_power_lost transitions_power_loss queued_power_lost)

lemma demo_run_events:
  "map ev_Type (snd (snd (monitorLoop (NewMonitor demo_thresholds) None [] demo_run))) =
     [EventPowerLost, EventLowBattery, EventEmergency, EventPowerRestored]"
  by code_simp

lemma demo_run_transitions: "power_loss_transitions (samples_of demo_run) = 1"
  by code_simp

theorem C7_witness_scenario:
  "length (filter (\<lambda>e. ev_Type e = EventPowerLost)
             (snd (snd (monitorLoop (NewMonitor demo_thresholds) None [] demo_run)))) = 1
   \<and> length (filter (\<lambda>e. ev_Type e = EventPowerLost)
        (checkEvents demo_thresholds
           \<lparr>ups_Name = ''ups'', ups_Status = ''OB'', ups_BatteryCharge = 55, ups_Runtime = 600,
            ups_Load = 40\<rparr>
           (Some \<lparr>ups_Name = ''ups'', ups_Status = ''OL'', ups_BatteryCharge = 100,
                  ups_Runtime = 600, ups_Load = 40\<rparr>))) = 1
   \<and> length (filter (\<lambda>e. ev_Type e = EventPowerLost)
        (drop (length (mon_eventCh (NewMonitor demo_thresholds)))
           (mon_eventCh (emitEvents
              (checkEvents demo_thresholds
                 \<lparr>ups_Name = ''ups'', ups_Status = ''OB'', ups_BatteryCharge = 55,
                  ups_Runtime = 600, ups_Load = 40\<rparr>
                 (Some \<lparr>ups_Name = ''ups'', ups_Status = ''OL'', ups_BatteryCharge = 100,
                        ups_Runtime = 600, ups_Load = 40\<rparr>))
              (NewMonitor demo_thresholds))))) = 1"
  using C7_power_lost_once_per_transition_if_room
     [where th = demo_thresholds and ticks = demo_run
        and current = "\<lparr>ups_Name = ''ups'', ups_Status = ''OB'', ups_BatteryCharge = 55,
            ups_Runtime = 600, ups_Load = 40\<rparr>"
        and last_sample = "Some \<lparr>ups_Name = ''ups'', ups_Status = ''OL'', ups_BatteryCharge = 100,
                  ups_Runtime = 600, ups_Load = 40\<rparr>"
        and m = "NewMonitor demo_thresholds"]
  by (simp add: demo_run_transitions IsOnline_def IsOnBattery_def sublist_eval NewMonitor_def
        chan_cap_def)

subsection \<open>The first sample\<close>

text \<open>
  Claim C10. Let the monitor start and read its first sample \<open>s\<close> successfully after any
  number of failed reads. On that tick no PowerLost and no PowerRestored event is emitted;
  the events emitted are exactly the battery-level event that the thresholds select when
  \<open>s\<close> has the on-battery flag (none otherwise); and since the event channel is still
  empty, that event is queued on the channel: a battery-level event is published with no
  PowerLost before it.
\<close>

theorem C10_first_sample_battery_event_without_power_lost:
  assumes "\<forall>t\<in>set fails. tk_sample t = None" and "tk_sample t = Some s"
  shows "(case monitorLoop (NewMonitor th) None [] (fails @ [t]) of
            (m', lastStatus', calls) \<Rightarrow>
              lastStatus' = Some s \<and>
              (\<forall>e\<in>set calls. ev_Type e \<noteq> EventPowerLost \<and> ev_Type e \<noteq> EventPowerRestored) \<and>
              map ev_Type calls =
                (if IsOnBattery s then
                   (if ups_BatteryCharge s \<le> th_Emergency th then [EventEmergency]
                    else if ups_BatteryCharge s \<le> th_Critical th then [EventCriticalBattery]
                    else if ups_BatteryCharge s \<le> th_Warning th then [EventLowBattery]
                    else [])
                 else []) \<and>
              mon_eventCh m' = calls)"
proof -
  have kinds: "map ev_Type (checkEvents th s None) = cascade th s"
    by (rule checkEvents_first)
  have "\<forall>e\<in>set (checkEvents th s None). ev_Type e \<in> set (cascade th s)"
    unfolding kinds[symmetric] by simp
  then have no_power: "\<forall>e\<in>set (checkEvents th s None).
      ev_Type e \<noteq> EventPowerLost \<and> ev_Type e \<noteq> EventPowerRestored"
    by (auto simp: cascade_def split: if_splits)
  show ?thesis
    using no_power kinds
    by (simp add: monitorLoop_first_sample[OF assms] cascade_def)
qed

theorem C10_witness_emergency_on_first_sample:
  "monitorLoop (NewMonitor \<lparr>th_Warning = 30, th_Critical = 20, th_Emergency = 10\<rparr>) None []
     [\<lparr>tk_sample = None, tk_statusReads = 0, tk_eventReads = 0\<rparr>, demo_sample ''OB LB'' 8] =
   (\<lparr>mon_thresholds = \<lparr>th_Warning = 30, th_Critical = 20, th_Emergency = 10\<rparr>,
     mon_statusCh = [\<lparr>ups_Name = ''ups'', ups_Status = ''OB LB'', ups_BatteryCharge = 8,
                          ups_Runtime = 600, ups_Load = 40\<rparr>],
     mon_eventCh = [\<lparr>ev_Type = EventEmergency,
        ev_Status = \<lparr>ups_Name = ''ups'', ups_Status = ''OB LB'', ups_BatteryCharge = 8,
                          ups_Runtime = 600, ups_Load = 40\<rparr>,
        ev_Message = ''EMERGENCY: Battery at 8%''\<rparr>]\<rparr>,
    Some \<lparr>ups_Name = ''ups'', ups_Status = ''OB LB'', ups_BatteryCharge = 8,
                          ups_Runtime = 600, ups_Load = 40\<rparr>,
    [\<lparr>ev_Type = EventEmergency,
        ev_Status = \<lparr>ups_Name = ''ups'', ups_Status = ''OB LB'', ups_BatteryCharge = 8,
                          ups_Runtime = 600, ups_Load = 40\<rparr>,
        ev_Message = ''EMERGENCY: Battery at 8%''\<rparr>])"
  using C10_first_sample_battery_event_without_power_lost
    [where fails = "[\<lparr>tk_sample = None, tk_statusReads = 0, tk_eventReads = 0\<rparr>]"
       and t = "demo_sample ''OB LB'' 8"
       and s = "\<lparr>ups_Name = ''ups'', ups_Status = ''OB LB'', ups_BatteryCharge = 8,
                          ups_Runtime = 600, ups_Load = 40\<rparr>"
       and th = "\<lparr>th_Warning = 30, th_Critical = 20, th_Emergency = 10\<rparr>"]
  by (simp add: demo_sample_def NewMonitor_def Let_def checkEvents_def IsOnline_def IsOnBattery_def
        sublist_eval emitEvents_def emitEvent_def chan_cap_def fmt_d_def fmt_nat.simps digit_char_def)

section \<open>Properties of the orchestrator\<close>

subsection \<open>The phases leave the status alone\<close>

lemma steady_saved: "steady s r \<Longrightarrow> steady s (saved r)"
  by (simp add: steady_def saved_def)

lemma steady_update:
  "steady s r \<Longrightarrow> (\<And>x. os_Status (f x) = os_Status x) \<Longrightarrow> steady s (update_state f r)"
  by (simp add: steady_def update_state_def)

lemma steady_step:
  "steady s r \<Longrightarrow> (\<And>x. os_Status (f x) = os_Status x) \<Longrightarrow> steady s (saved (update_state f r))"
  by (simp add: steady_saved steady_update)

lemma executeSequential_steady:
  "steady s r \<Longrightarrow> steady s (fst (executeSequential w p name i actions r))"
proof (induction actions arbitrary: i r)
  case Nil
  then show ?case by simp
next
  case (Cons action rest)
  let ?r1 = "saved (update_state (\<lambda>s. s\<lparr>os_CurrentAction := i\<rparr>) r)"
  have r1: "steady s ?r1" using Cons.prems by (simp add: steady_step)
  have r2: "steady s (saved (update_state
       (\<lambda>s. s\<lparr>os_CompletedActions := os_CompletedActions s @ [c]\<rparr>) ?r1))" for c
    using r1 by (simp add: steady_step)
  show ?case
    using r1 r2 Cons.IH
    by (simp add: Let_def split: ret.splits prod.splits)
qed

lemma parallel_tasks_steady:
  "steady s r \<Longrightarrow> steady s (fst (parallel_tasks w p name actions order r first))"
proof (induction order arbitrary: r first)
  case Nil
  then show ?case by simp
next
  case (Cons idx order)
  have r2: "steady s (saved (update_state
       (\<lambda>s. s\<lparr>os_CompletedActions := os_CompletedActions s @ [c]\<rparr>) r))" for c
    using Cons.prems by (simp add: steady_step)
  show ?case
    using Cons.prems r2 Cons.IH
    by (simp split: ret.splits prod.splits)
qed

lemma executePhase_steady:
  "steady s r \<Longrightarrow> steady s (fst (executePhase w p phase r))"
  by (simp add: executePhase_def executeParallel_def executeSequential_steady parallel_tasks_steady)

lemma execute_phases_steady:
  "steady s r \<Longrightarrow> steady s (fst (execute_phases w i phases r))"
proof (induction phases arbitrary: i r)
  case Nil
  then show ?case by simp
next
  case (Cons phase rest)
  let ?r1 = "saved (update_state (\<lambda>s. s\<lparr>os_CurrentPhase := i, os_CurrentAction := 0\<rparr>) r)"
  have r1: "steady s ?r1" using Cons.prems by (simp add: steady_step)
  have "steady s (fst (executePhase w i phase ?r1))"
    using r1 by (rule executePhase_steady)
  then show ?case
    using Cons.IH by (auto split: prod.splits ret.splits)
qed

subsection \<open>The policy \<^verbatim>\<open>abort_all\<close>\<close>

text \<open>
  Claim C1 says that when an action with the policy \<^verbatim>\<open>abort_all\<close> fails, no action of a
  later phase is started and the session ends with the status \<^verbatim>\<open>failed\<close>. The code does
  otherwise. \<open>executeSequential\<close> stops its phase and returns the error
  \<^verbatim>\<open>action failed, aborting all\<close>, but \<open>Execute\<close> only logs the error of a phase and goes on
  with the next phase, and at the end sets \<^verbatim>\<open>completed\<close>. On the plan \<open>abort_all_plan\<close>
  (the action of phase 0 fails under \<^verbatim>\<open>abort_all\<close>) the action of phase 1 is run and
  recorded, \<open>Execute\<close> returns nil, and the status is \<^verbatim>\<open>completed\<close>.
\<close>

theorem C1_abort_all_does_not_stop_later_phases:
  "snd (Execute quiet_world ''1'' ''battery at 15%''
          (NewOrchestrator abort_all_plan ''/var/lib/proxmox-guardian/state.json'')) = Ret None
   \<and> map (\<lambda>c. (oca_PhaseIndex c, oca_ActionIndex c, oca_Success c, oca_Error c))
         (os_CompletedActions (orch_state (fst (fst
            (Execute quiet_world ''1'' ''battery at 15%''
               (NewOrchestrator abort_all_plan ''/var/lib/proxmox-guardian/state.json'')))))) =
       [(0, 0, False, ''exit status 1''), (1, 0, True, [])]
   \<and> os_Status (orch_state (fst (fst
         (Execute quiet_world ''1'' ''battery at 15%''
            (NewOrchestrator abort_all_plan ''/var/lib/proxmox-guardian/state.json''))))) =
       ''completed''
   \<and> snd (executeSequential quiet_world 0 ''p1'' 0 (ph_Actions (hd abort_all_plan))
             (NewOrchestrator abort_all_plan ''/var/lib/proxmox-guardian/state.json'', [])) =
       Ret (Some ''action failed, aborting all: exit status 1'')"
  by code_simp

section \<open>Properties of the recovery manager\<close>

subsection \<open>The errors collected by the loop\<close>

lemma recover_all_errors:
  "recover_all w mr i actions errs =
     errs @ concat (map (\<lambda>j. case recoverAction w (i + j) mr (actions ! j) of
                               None \<Rightarrow> [] | Some e \<Rightarrow> [e]) [0..<length actions])"
proof (induction actions arbitrary: i errs)
  case Nil
  then show ?case by simp
next
  case (Cons a actions)
  have upt: "[0..<length (a # actions)] = 0 # map Suc [0..<length actions]"
    by (simp add: upt_conv_Cons map_Suc_upt del: upt_Suc)
  show ?case
    unfolding upt
    by (simp add: Cons.IH comp_def split: option.splits)
qed

lemma recover_all_count:
  "length (recover_all w mr 0 actions []) =
     length (filter (\<lambda>j. recoverAction w j mr (actions ! j) \<noteq> None) [0..<length actions])"
proof -
  have "length (concat (map f xs)) = length (filter (\<lambda>j. g j \<noteq> None) xs)"
    if "\<And>j. f j = (case g j of None \<Rightarrow> [] | Some e \<Rightarrow> [e])"
    for f :: "nat \<Rightarrow> string list" and g :: "nat \<Rightarrow> string option" and xs
    using that by (induction xs) (auto split: option.splits)
  from this[of "\<lambda>j. case recoverAction w j mr (actions ! j) of None \<Rightarrow> [] | Some e \<Rightarrow> [e]"
      "\<lambda>j. recoverAction w j mr (actions ! j)" "[0..<length actions]"]
  show ?thesis by (simp add: recover_all_errors)
qed

lemma GetActionsForRecovery_SetStatus:
  "GetActionsForRecovery (SetStatus s m) = GetActionsForRecovery m"
  by (simp add: GetActionsForRecovery_def SetStatus_def)

lemma Save_not_panic:
  "length ''/state.json'' \<le> length (filePath m) \<Longrightarrow> Save marshal fs m \<noteq> None"
  by (auto simp: Save_def Let_def split: option.splits sum.splits)

lemma recover_loop_None:
  "recover_loop recover cancelled cerr mr a le = None \<longleftrightarrow>
     (if a \<le> mr
      then (\<exists>k. a \<le> k \<and> k \<le> mr \<and>
                snd (recover (nat (k - 1))) = None \<and> res_Success (fst (recover (nat (k - 1)))) \<and>
                (\<forall>j. a \<le> j \<and> j < k \<longrightarrow> \<not> cancelled j))
      else le = None)"
proof (induction recover cancelled cerr mr a le rule: recover_loop.induct)
  case (1 recover cancelled cerr mr a le)
  let ?ok = "\<lambda>k. snd (recover (nat (k - 1))) = None \<and> res_Success (fst (recover (nat (k - 1))))"
  let ?R = "\<lambda>a. \<exists>k. a \<le> k \<and> k \<le> mr \<and> ?ok k \<and> (\<forall>j. a \<le> j \<and> j < k \<longrightarrow> \<not> cancelled j)"
  show ?case
  proof (cases "a \<le> mr")
    case False
    then show ?thesis by (subst recover_loop.simps) simp
  next
    case le: True
    obtain result err where r: "recover (nat (a - 1)) = (result, err)"
      by (cases "recover (nat (a - 1))") auto
    show ?thesis
    proof (cases "err = None \<and> res_Success result")
      case True
      then have "recover_loop recover cancelled cerr mr a le = None"
        using le r by (subst recover_loop.simps) simp
      moreover have "?R a"
        using True le r by (intro exI[of _ a]) auto
      ultimately show ?thesis using le by simp
    next
      case nok: False
      then have nok': "\<not> ?ok a" using r by auto
      have later: "?R a \<longleftrightarrow> a < mr \<and> \<not> cancelled a \<and> ?R (a + 1)"
      proof
        assume "?R a"
        then obtain k where k: "a \<le> k" "k \<le> mr" "?ok k" "\<forall>j. a \<le> j \<and> j < k \<longrightarrow> \<not> cancelled j"
          by blast
        have "k \<noteq> a" using k(3) nok' by auto
        then have "a + 1 \<le> k" using k(1) by simp
        then show "a < mr \<and> \<not> cancelled a \<and> ?R (a + 1)"
          using k by (intro conjI exI[of _ k]) auto
      next
        assume h: "a < mr \<and> \<not> cancelled a \<and> ?R (a + 1)"
        then obtain k where k: "a + 1 \<le> k" "k \<le> mr" "?ok k" "\<forall>j. a + 1 \<le> j \<and> j < k \<longrightarrow> \<not> cancelled j"
          by blast
        have "\<forall>j. a \<le> j \<and> j < k \<longrightarrow> \<not> cancelled j"
        proof (intro allI impI)
          fix j assume "a \<le> j \<and> j < k"
          then have "j = a \<or> (a + 1 \<le> j \<and> j < k)" by auto
          then show "\<not> cancelled j" using h k(4) by auto
        qed
        then show "?R a"
          using k by (intro exI[of _ k]) auto
      qed
      show ?thesis
      proof (cases "a < mr \<and> cancelled a")
        case True
        then have "recover_loop recover cancelled cerr mr a le = Some cerr"
          using le r nok by (subst recover_loop.simps) auto
        then show ?thesis using le later True by simp
      next
        case False
        let ?le' = "if \<not> res_Success result then Some (''recovery failed: '' @ res_Error result) else err"
        have le': "?le' \<noteq> None" using nok by auto
        have step: "recover_loop recover cancelled cerr mr a le =
            recover_loop recover cancelled cerr mr (a + 1) ?le'"
          using le r nok False by (subst recover_loop.simps) auto
        have ih: "recover_loop recover cancelled cerr mr (a + 1) ?le' = None \<longleftrightarrow>
            (if a + 1 \<le> mr then ?R (a + 1) else ?le' = None)"
          using "1.IH"[OF le r[symmetric] _ _] nok False by auto
        show ?thesis
          unfolding step ih using le later False le' by auto
      qed
    qed
  qed
qed


lemma recoverAction_error:
  assumes "spec_Recovery (ca_ActionSpec action) \<noteq> []"
  shows "recoverAction w i mr action \<noteq> None \<longleftrightarrow>
     createExecutor (ca_ActionSpec action) \<noteq> None \<or>
     (1 \<le> mr \<and>
      \<not> (\<exists>k\<in>{1..mr}. snd (rw_Recover w i (nat (k - 1))) = None \<and>
                       res_Success (fst (rw_Recover w i (nat (k - 1)))) \<and>
                       (\<forall>j\<in>{1..<k}. \<not> rw_done w i j)))"
proof (cases "createExecutor (ca_ActionSpec action)")
  case (Some err)
  then show ?thesis using assms by (simp add: recoverAction_def)
next
  case None
  have "recoverAction w i mr action =
      recover_loop (rw_Recover w i) (rw_done w i) (rw_cerr w) mr 1 None"
    using assms None by (simp add: recoverAction_def)
  then have eq: "recoverAction w i mr action = None \<longleftrightarrow>
      (if 1 \<le> mr
       then (\<exists>k. 1 \<le> k \<and> k \<le> mr \<and> snd (rw_Recover w i (nat (k - 1))) = None \<and>
                 res_Success (fst (rw_Recover w i (nat (k - 1)))) \<and>
                 (\<forall>j. 1 \<le> j \<and> j < k \<longrightarrow> \<not> rw_done w i j))
       else True)"
    by (simp only: recover_loop_None) simp
  have bounded: "(\<exists>k\<in>{1..mr}. snd (rw_Recover w i (nat (k - 1))) = None \<and>
                       res_Success (fst (rw_Recover w i (nat (k - 1)))) \<and>
                       (\<forall>j\<in>{1..<k}. \<not> rw_done w i j)) \<longleftrightarrow>
      (\<exists>k. 1 \<le> k \<and> k \<le> mr \<and> snd (rw_Recover w i (nat (k - 1))) = None \<and>
                 res_Success (fst (rw_Recover w i (nat (k - 1)))) \<and>
                 (\<forall>j. 1 \<le> j \<and> j < k \<longrightarrow> \<not> rw_done w i j))"
    by (simp add: Bex_def Ball_def conj_ac)
  show ?thesis
    unfolding bounded using None eq by (cases "1 \<le> mr") auto
qed

lemma GetActionsForRecovery_recoverable:
  "a \<in> set (GetActionsForRecovery m) \<Longrightarrow> spec_Recovery (ca_ActionSpec a) \<noteq> []"
  by (simp add: GetActionsForRecovery_def Let_def collect_recoverable_filter reverse_loop_rev)

lemma Save_calls:
  assumes "length ''/state.json'' \<le> length (filePath m)"
  shows "\<exists>err. Save marshal fs m =
     Some ((let dir = take (length (filePath m) - length ''/state.json'') (filePath m)
            in case fs (MkdirAll dir perm_0750) of
                 Some e \<Rightarrow> [MkdirAll dir perm_0750]
               | None \<Rightarrow>
                   (case marshal (state m) of
                      Inl e \<Rightarrow> [MkdirAll dir perm_0750]
                    | Inr data \<Rightarrow> [MkdirAll dir perm_0750, WriteFile (filePath m) data perm_0600])),
           err)"
  using assms by (auto simp: Save_def Let_def split: option.splits sum.splits)

subsection \<open>The state after a recovery\<close>

text \<open>
  Claim C8 says that when \<open>RecoveryExecute\<close> finishes, the status is idle and the journal
  is cleared if every recoverable action was recovered without error, and the status is
  failed otherwise. The code does otherwise in two situations. When the context is
  cancelled during the wait for stable power, \<open>RecoveryExecute\<close> returns the cause of the
  cancellation; the status, in the manager and in the state file, is recovering, which is
  neither idle nor failed, although no action has been recovered. And with a negative
  \<^verbatim>\<open>MaxRetries\<close> the loop of \<open>recoverAction\<close> never calls \<^verbatim>\<open>Recover\<close> and returns nil: in a
  world where every recovery command would fail, no action is recovered, and yet
  \<open>RecoveryExecute\<close> clears the journal, sets idle and returns nil.
\<close>

theorem C8_counterexample_cancelled_wait_and_no_attempts:
  "snd (RecoveryExecute cancelled_recovery recovery_ABC) = Ret (Some ''context canceled'')
   \<and> st_Status (state (rm_stateManager
         (fst (fst (RecoveryExecute cancelled_recovery recovery_ABC))))) = ''recovering''
   \<and> map snd (snd (fst (RecoveryExecute cancelled_recovery recovery_ABC))) =
       [[MkdirAll ''/var/lib/proxmox-guardian'' 488,
         WriteFile ''/var/lib/proxmox-guardian/state.json'' ''1:recovering'' 384]]
   \<and> length (GetActionsForRecovery (rm_stateManager recovery_ABC)) = 2
   \<and> cfg_MaxRetries (rm_config recovery_no_attempts) = - 1
   \<and> map (\<lambda>i. res_Success (fst (rw_Recover hopeless_recovery i 0))) [0, 1] = [False, False]
   \<and> state (rm_stateManager (fst (fst (RecoveryExecute hopeless_recovery recovery_no_attempts)))) =
       zero_State StatusIdle
   \<and> snd (RecoveryExecute hopeless_recovery recovery_no_attempts) = Ret None"
  by code_simp

text \<open>
  Claim C8, amended. \<open>RecoveryExecute\<close> refuses to run, with an error and without touching
  the state, when recovery is disabled or the status is neither in-progress nor failed.
  Otherwise it sets the status recovering and saves; if the context is cancelled during
  the wait for stable power it returns the cause of the cancellation there, the status
  still recovering. Otherwise it goes through the actions to recover. An action is in
  error when no executor can be built for it, or when \<^verbatim>\<open>MaxRetries\<close> is at least 1 and none
  of the first \<^verbatim>\<open>MaxRetries\<close> calls of \<^verbatim>\<open>Recover\<close> returns a success without error before a
  wait between attempts is cancelled; with \<^verbatim>\<open>MaxRetries\<close> below 1 \<^verbatim>\<open>Recover\<close> is not called
  and the action is not in error. With \<open>n\<close> the number of actions in error: if \<open>n = 0\<close> the
  state becomes the cleared state, whose status is idle, and nil is returned; otherwise
  the state keeps its content, with the status failed and the last error
  \<^verbatim>\<open><n> recovery errors\<close>, and the error \<^verbatim>\<open>recovery completed with <n> errors\<close> is returned.
  Each of the two saves creates the directory of the state file with mode 0750 and, if that
  and the marshalling succeed, writes the marshalled state to the state file with mode
  0600; an error of a save changes neither the state held by the manager nor the value
  returned. On a path shorter than \<^verbatim>\<open>/state.json\<close> the first save panics.
\<close>

theorem C8_recovery_outcome_by_recover_calls:
  "RecoveryExecute w rm =
    (let m = rm_stateManager rm;
         cfg = rm_config rm;
         path = filePath m;
         dir = take (length path - length ''/state.json'') path;
         written = (\<lambda>st. case rw_fs w (MkdirAll dir perm_0750) of
                      Some e \<Rightarrow> [MkdirAll dir perm_0750]
                    | None \<Rightarrow>
                        (case rw_marshal w st of
                           Inl e \<Rightarrow> [MkdirAll dir perm_0750]
                         | Inr data \<Rightarrow> [MkdirAll dir perm_0750, WriteFile path data perm_0600]));
         actions = GetActionsForRecovery m;
         recovered = (\<lambda>i. \<exists>k\<in>{1..cfg_MaxRetries cfg}.
                         snd (rw_Recover w i (nat (k - 1))) = None \<and>
                         res_Success (fst (rw_Recover w i (nat (k - 1)))) \<and>
                         (\<forall>j\<in>{1..<k}. \<not> rw_done w i j));
         in_error = (\<lambda>i. createExecutor (ca_ActionSpec (actions ! i)) \<noteq> None \<or>
                         (1 \<le> cfg_MaxRetries cfg \<and> \<not> recovered i));
         n = length (filter in_error [0..<length actions]);
         st1 = (state m)\<lparr>st_Status := StatusRecovering\<rparr>;
         st2 = (if n = 0 then zero_State StatusIdle
                else (state m)\<lparr>st_Status := StatusFailed,
                                st_LastError := fmt_d (int n) @ '' recovery errors''\<rparr>)
     in if \<not> cfg_Enabled cfg then ((rm, []), Ret (Some ''recovery is disabled''))
        else if st_Status (state m) \<noteq> StatusInProgress \<and> st_Status (state m) \<noteq> StatusFailed
        then ((rm, []),
              Ret (Some (''nothing to recover (status: '' @ st_Status (state m) @ '')'')))
        else if length path < length ''/state.json''
        then ((rm\<lparr>rm_stateManager := m\<lparr>state := st1\<rparr>\<rparr>, []), Panic)
        else if 0 < cfg_PowerStableDelay cfg \<and> rw_delayCancelled w
        then ((rm\<lparr>rm_stateManager := m\<lparr>state := st1\<rparr>\<rparr>, [(st1, written st1)]),
              Ret (Some (rw_cerr w)))
        else ((rm\<lparr>rm_stateManager := m\<lparr>state := st2\<rparr>\<rparr>,
               [(st1, written st1), (st2, written st2)]),
              Ret (if n = 0 then None
                   else Some (''recovery completed with '' @ fmt_d (int n) @ '' errors''))))"
proof -
  let ?m = "rm_stateManager rm"
  let ?mr = "cfg_MaxRetries (rm_config rm)"
  let ?actions = "GetActionsForRecovery ?m"
  let ?m1 = "SetStatus StatusRecovering ?m"
  let ?errs = "recover_all w ?mr 0 ?actions []"
  let ?m2 = "if ?errs = [] then Clear (SetStatus StatusIdle ?m1)
             else SetError (fmt_d (int (length ?errs)) @ '' recovery errors'')
                    (SetStatus StatusFailed ?m1)"
  let ?in_error = "\<lambda>i. createExecutor (ca_ActionSpec (?actions ! i)) \<noteq> None \<or>
       (1 \<le> ?mr \<and>
        \<not> (\<exists>k\<in>{1..?mr}. snd (rw_Recover w i (nat (k - 1))) = None \<and>
                       res_Success (fst (rw_Recover w i (nat (k - 1)))) \<and>
                       (\<forall>j\<in>{1..<k}. \<not> rw_done w i j)))"
  have "filter (\<lambda>i. recoverAction w i ?mr (?actions ! i) \<noteq> None) [0..<length ?actions] =
        filter ?in_error [0..<length ?actions]"
  proof (rule filter_cong[OF refl])
    fix i assume "i \<in> set [0..<length ?actions]"
    then have "spec_Recovery (ca_ActionSpec (?actions ! i)) \<noteq> []"
      by (intro GetActionsForRecovery_recoverable[of _ ?m]) simp
    then show "(recoverAction w i ?mr (?actions ! i) \<noteq> None) = ?in_error i"
      by (rule recoverAction_error)
  qed
  then have n: "length ?errs = length (filter ?in_error [0..<length ?actions])"
    by (simp add: recover_all_count)
  let ?n = "length (filter ?in_error [0..<length ?actions])"
  let ?st1 = "(state ?m)\<lparr>st_Status := StatusRecovering\<rparr>"
  let ?st2 = "if ?n = 0 then zero_State StatusIdle
              else (state ?m)\<lparr>st_Status := StatusFailed,
                              st_LastError := fmt_d (int ?n) @ '' recovery errors''\<rparr>"
  have empty: "?errs = [] \<longleftrightarrow> ?n = 0"
    using n by (metis length_0_conv)
  have m1: "?m1 = ?m\<lparr>state := ?st1\<rparr>"
    by (simp add: SetStatus_def)
  have m2: "?m2 = ?m\<lparr>state := ?st2\<rparr>"
    unfolding empty n by (simp add: SetStatus_def SetError_def Clear_def)
  have fp: "filePath (?m\<lparr>state := st\<rparr>) = filePath ?m" for st by simp
  have st: "state (?m\<lparr>state := st\<rparr>) = st" for st by simp
  show ?thesis
  proof (cases "length (filePath ?m) < length ''/state.json''")
    case True
    have "Save (rw_marshal w) (rw_fs w) ?m1 = None"
      using True by (simp add: Save_def SetStatus_def)
    then show ?thesis
      using True by (simp add: RecoveryExecute_def Let_def GetState_def SetStatus_def)
  next
    case False
    then have p: "length ''/state.json'' \<le> length (filePath (?m\<lparr>state := st\<rparr>))" for st
      by simp
    obtain e1 where s1: "Save (rw_marshal w) (rw_fs w) (?m\<lparr>state := ?st1\<rparr>) =
        Some (case rw_fs w (MkdirAll (take (length (filePath ?m) - length ''/state.json'')
                                         (filePath ?m)) perm_0750) of
                 Some e \<Rightarrow> [MkdirAll (take (length (filePath ?m) - length ''/state.json'')
                                         (filePath ?m)) perm_0750]
               | None \<Rightarrow>
                   (case rw_marshal w ?st1 of
                      Inl e \<Rightarrow> [MkdirAll (take (length (filePath ?m) - length ''/state.json'')
                                         (filePath ?m)) perm_0750]
                    | Inr data \<Rightarrow> [MkdirAll (take (length (filePath ?m) - length ''/state.json'')
                                         (filePath ?m)) perm_0750,
                                   WriteFile (filePath ?m) data perm_0600]), e1)"
      using Save_calls[where m = "?m\<lparr>state := ?st1\<rparr>" and marshal = "rw_marshal w" and fs = "rw_fs w"]
        p[of ?st1] unfolding Let_def fp st by blast
    obtain e2 where s2: "Save (rw_marshal w) (rw_fs w) (?m\<lparr>state := ?st2\<rparr>) =
        Some (case rw_fs w (MkdirAll (take (length (filePath ?m) - length ''/state.json'')
                                         (filePath ?m)) perm_0750) of
                 Some e \<Rightarrow> [MkdirAll (take (length (filePath ?m) - length ''/state.json'')
                                         (filePath ?m)) perm_0750]
               | None \<Rightarrow>
                   (case rw_marshal w ?st2 of
                      Inl e \<Rightarrow> [MkdirAll (take (length (filePath ?m) - length ''/state.json'')
                                         (filePath ?m)) perm_0750]
                    | Inr data \<Rightarrow> [MkdirAll (take (length (filePath ?m) - length ''/state.json'')
                                         (filePath ?m)) perm_0750,
                                   WriteFile (filePath ?m) data perm_0600]), e2)"
      using Save_calls[where m = "?m\<lparr>state := ?st2\<rparr>" and marshal = "rw_marshal w" and fs = "rw_fs w"]
        p[of ?st2] unfolding Let_def fp st by blast
    show ?thesis
      unfolding RecoveryExecute_def Let_def GetActionsForRecovery_SetStatus m2
      unfolding m1 s1 s2 empty n st
      using False
      by (simp add: GetState_def)
  qed
qed

theorem C8_witness_all_recovered_and_one_error:
  "state (rm_stateManager (fst (fst (RecoveryExecute calm_recovery recovery_ABC)))) =
     zero_State StatusIdle
   \<and> snd (RecoveryExecute calm_recovery recovery_ABC) = Ret None
   \<and> map snd (snd (fst (RecoveryExecute calm_recovery recovery_ABC))) =
       [[MkdirAll ''/var/lib/proxmox-guardian'' 488,
         WriteFile ''/var/lib/proxmox-guardian/state.json'' ''1:recovering'' 384],
        [MkdirAll ''/var/lib/proxmox-guardian'' 488,
         WriteFile ''/var/lib/proxmox-guardian/state.json'' '':idle'' 384]]
   \<and> st_Status (state (rm_stateManager (fst (fst (RecoveryExecute failing_recovery recovery_ABC))))) =
     StatusFailed
   \<and> st_LastError (state (rm_stateManager (fst (fst (RecoveryExecute failing_recovery recovery_ABC))))) =
     ''1 recovery errors''
   \<and> snd (RecoveryExecute failing_recovery recovery_ABC) =
       Ret (Some ''recovery completed with 1 errors'')
   \<and> map snd (snd (fst (RecoveryExecute failing_recovery recovery_ABC))) =
       [[MkdirAll ''/var/lib/proxmox-guardian'' 488,
         WriteFile ''/var/lib/proxmox-guardian/state.json'' ''1:recovering'' 384],
        [MkdirAll ''/var/lib/proxmox-guardian'' 488,
         WriteFile ''/var/lib/proxmox-guardian/state.json'' ''1:failed'' 384]]
   \<and> snd (RecoveryExecute calm_recovery
            (recovery_ABC\<lparr>rm_stateManager := SetStatus StatusCompleted journal_ABC\<rparr>)) =
       Ret (Some ''nothing to recover (status: completed)'')"
proof -
  have mr: "cfg_MaxRetries (rm_config recovery_ABC) = 3"
    by code_simp
  have acts: "GetActionsForRecovery (rm_stateManager recovery_ABC) =
      [local_action 2 ''c'' ''rc'', local_action 0 ''a'' ''ra'']"
    by code_simp
  have ce: "createExecutor (ca_ActionSpec (local_action i c r)) = None" for i c r
    by (simp add: createExecutor_def local_action_def)
  have ex3: "\<exists>k\<ge>1. k \<le> (3::int)"
    by (rule exI[of _ 1]) simp
  have upt2: "[0..<2] = [0, Suc 0]"
    by (simp add: upt_rec)
  have n0: "length (filter
      (\<lambda>i. createExecutor (ca_ActionSpec (GetActionsForRecovery (rm_stateManager recovery_ABC) ! i)) \<noteq> None \<or>
           (1 \<le> cfg_MaxRetries (rm_config recovery_ABC) \<and>
            \<not> (\<exists>k\<in>{1..cfg_MaxRetries (rm_config recovery_ABC)}.
                  snd (rw_Recover calm_recovery i (nat (k - 1))) = None \<and>
                  res_Success (fst (rw_Recover calm_recovery i (nat (k - 1)))) \<and>
                  (\<forall>j\<in>{1..<k}. \<not> rw_done calm_recovery i j))))
      [0..<length (GetActionsForRecovery (rm_stateManager recovery_ABC))]) = 0"
    unfolding acts mr by (simp add: upt2 ce calm_recovery_def ex3)
  have n1: "length (filter
      (\<lambda>i. createExecutor (ca_ActionSpec (GetActionsForRecovery (rm_stateManager recovery_ABC) ! i)) \<noteq> None \<or>
           (1 \<le> cfg_MaxRetries (rm_config recovery_ABC) \<and>
            \<not> (\<exists>k\<in>{1..cfg_MaxRetries (rm_config recovery_ABC)}.
                  snd (rw_Recover failing_recovery i (nat (k - 1))) = None \<and>
                  res_Success (fst (rw_Recover failing_recovery i (nat (k - 1)))) \<and>
                  (\<forall>j\<in>{1..<k}. \<not> rw_done failing_recovery i j))))
      [0..<length (GetActionsForRecovery (rm_stateManager recovery_ABC))]) = 1"
    unfolding acts mr by (simp add: upt2 ce calm_recovery_def failing_recovery_def ex3)
  show ?thesis
    unfolding C8_recovery_outcome_by_recover_calls[of calm_recovery recovery_ABC]
      C8_recovery_outcome_by_recover_calls[of failing_recovery recovery_ABC]
      C8_recovery_outcome_by_recover_calls[of calm_recovery
        "recovery_ABC\<lparr>rm_stateManager := SetStatus StatusCompleted journal_ABC\<rparr>"]
      Let_def n0 n1
    by code_simp
qed

section \<open>Properties of the session status\<close>

subsection \<open>The statuses of each operation\<close>

lemma successively_constant:
  "\<forall>x\<in>set xs. x = s \<Longrightarrow> successively (\<lambda>a b. a = b \<or> E a b) xs"
  by (induction xs) (auto simp: successively_Cons)

lemma hd_constant: "xs \<noteq> [] \<Longrightarrow> \<forall>x\<in>set xs. x = s \<Longrightarrow> hd xs = s \<and> last xs = s"
  by (cases xs) auto

lemma within_edges_steady_run:
  assumes "xs \<noteq> []" and "\<forall>x\<in>set xs. x = s" and "E s0 s \<or> s0 = s"
  shows "within_edges E (s0 # xs @ [s])"
proof -
  have "successively (\<lambda>a b. a = b \<or> E a b) (xs @ [s])"
    using assms(2) by (intro successively_constant[where s = s]) auto
  moreover have "hd (xs @ [s]) = s"
    using hd_constant[OF assms(1,2)] assms(1) by simp
  ultimately show ?thesis
    using assms(3) by (auto simp: within_edges_def successively_Cons)
qed

lemma within_edges_finished_run:
  assumes "xs \<noteq> []" and "\<forall>x\<in>set xs. x = s" and "E s0 s \<or> s0 = s" and "E s c \<or> s = c"
  shows "within_edges E (s0 # (xs @ [c]) @ [c])"
proof -
  have hl: "hd xs = s \<and> last xs = s"
    using hd_constant[OF assms(1,2)] .
  have "successively (\<lambda>a b. a = b \<or> E a b) xs"
    using assms(2) by (rule successively_constant)
  then have "successively (\<lambda>a b. a = b \<or> E a b) (xs @ [c, c])"
    using assms(1,4) hl by (auto simp: successively_append_iff successively_Cons)
  moreover have "hd (xs @ [c, c]) = s"
    using hl assms(1) by simp
  ultimately show ?thesis
    using assms(3) by (auto simp: within_edges_def successively_Cons)
qed

lemma Execute_within_edges:
  assumes e0: "E (os_Status (orch_state orc)) ''in_progress'' \<or>
               os_Status (orch_state orc) = ''in_progress''"
    and ec: "E ''in_progress'' ''completed'' \<or> ''in_progress'' = ''completed''"
  shows "within_edges E (Execute_statuses w sessionID triggerEvent orc)"
proof -
  let ?st = "\<lparr>os_SessionID = sessionID, os_Status = ''in_progress'', os_CurrentPhase = 0,
              os_CurrentAction = 0, os_CompletedActions = [], os_TriggerEvent = triggerEvent\<rparr>"
  let ?orc1 = "orc\<lparr>orch_state := ?st\<rparr>"
  let ?r0 = "(?orc1, [orch_state ?orc1])"
  have r0: "steady ''in_progress'' ?r0" by (simp add: steady_def)
  show ?thesis
  proof (cases "snd (saveState (w_marshal w) (w_fs w) ?orc1)")
    case (Some err)
    then have "Execute_statuses w sessionID triggerEvent orc =
        os_Status (orch_state orc) # [''in_progress''] @ [''in_progress'']"
      by (simp add: Execute_statuses_def Execute_def Let_def)
    then show ?thesis
      using within_edges_steady_run[of "[''in_progress'']" "''in_progress''" E
          "os_Status (orch_state orc)"] e0 by simp
  next
    case None
    obtain r res where run: "execute_phases w 0 (orch_phases ?orc1) ?r0 = (r, res)"
      by (cases "execute_phases w 0 (orch_phases ?orc1) ?r0") auto
    have st: "steady ''in_progress'' r"
      using execute_phases_steady[OF r0, of w 0 "orch_phases ?orc1"] run by simp
    then have xs: "map os_Status (snd r) \<noteq> []" "\<forall>x\<in>set (map os_Status (snd r)). x = ''in_progress''"
      and cur: "os_Status (orch_state (fst r)) = ''in_progress''"
      by (auto simp: steady_def)
    show ?thesis
    proof (cases res)
      case Panic
      then have "Execute_statuses w sessionID triggerEvent orc =
          os_Status (orch_state orc) # map os_Status (snd r) @ [''in_progress'']"
        using None run cur by (simp add: Execute_statuses_def Execute_def Let_def)
      then show ?thesis
        using within_edges_steady_run[of "map os_Status (snd r)" "''in_progress''" E
            "os_Status (orch_state orc)"] xs e0 by simp
    next
      case (Ret u)
      then have "Execute_statuses w sessionID triggerEvent orc =
          os_Status (orch_state orc) # (map os_Status (snd r) @ [''completed'']) @ [''completed'']"
        using None run
        by (simp add: Execute_statuses_def Execute_def Let_def saved_def update_state_def)
      then show ?thesis
        using within_edges_finished_run[of "map os_Status (snd r)" "''in_progress''" E
            "os_Status (orch_state orc)" "''completed''"] xs e0 ec by simp
    qed
  qed
qed

lemma Recover_trace:
  "Recover_statuses orc =
     (if os_Status (orch_state orc) = StatusInProgress \<or> os_Status (orch_state orc) = StatusCompleted
      then [os_Status (orch_state orc), StatusRecovering, StatusIdle, StatusIdle]
      else [os_Status (orch_state orc), os_Status (orch_state orc)])"
  by (simp add: Recover_statuses_def Recover_def saved_def update_state_def StatusInProgress_def
        StatusCompleted_def StatusRecovering_def StatusIdle_def)

lemma replicate_constant: "\<forall>x\<in>set xs. x = s \<Longrightarrow> xs = replicate (length xs) s"
  by (induction xs) auto

lemma Execute_trace:
  "\<exists>n. Execute_statuses w sessionID triggerEvent orc =
         os_Status (orch_state orc) # replicate (Suc n) StatusInProgress @
         (if snd (Execute w sessionID triggerEvent orc) = Ret None
          then [StatusCompleted, StatusCompleted] else [StatusInProgress])"
proof -
  let ?st = "\<lparr>os_SessionID = sessionID, os_Status = ''in_progress'', os_CurrentPhase = 0,
              os_CurrentAction = 0, os_CompletedActions = [], os_TriggerEvent = triggerEvent\<rparr>"
  let ?orc1 = "orc\<lparr>orch_state := ?st\<rparr>"
  let ?r0 = "(?orc1, [orch_state ?orc1])"
  have r0: "steady ''in_progress'' ?r0" by (simp add: steady_def)
  show ?thesis
  proof (cases "snd (saveState (w_marshal w) (w_fs w) ?orc1)")
    case (Some err)
    then have "Execute_statuses w sessionID triggerEvent orc =
        os_Status (orch_state orc) # replicate (Suc 0) StatusInProgress @ [StatusInProgress]"
      and "snd (Execute w sessionID triggerEvent orc) \<noteq> Ret None"
      by (simp_all add: Execute_statuses_def Execute_def Let_def StatusInProgress_def)
    then show ?thesis by (intro exI[of _ 0]) simp
  next
    case None
    obtain r res where run: "execute_phases w 0 (orch_phases ?orc1) ?r0 = (r, res)"
      by (cases "execute_phases w 0 (orch_phases ?orc1) ?r0") auto
    have st: "steady ''in_progress'' r"
      using execute_phases_steady[OF r0, of w 0 "orch_phases ?orc1"] run by simp
    then have "\<forall>x\<in>set (map os_Status (snd r)). x = StatusInProgress" and ne: "snd r \<noteq> []"
      and cur: "os_Status (orch_state (fst r)) = StatusInProgress"
      by (auto simp: steady_def StatusInProgress_def)
    then have "map os_Status (snd r) = replicate (length (snd r)) StatusInProgress"
      using replicate_constant[of "map os_Status (snd r)" StatusInProgress] by simp
    moreover obtain n where "length (snd r) = Suc n"
      using ne by (cases "snd r") auto
    ultimately have xs: "map os_Status (snd r) = replicate (Suc n) StatusInProgress"
      by simp
    show ?thesis
    proof (cases res)
      case Panic
      then have "Execute_statuses w sessionID triggerEvent orc =
          os_Status (orch_state orc) # map os_Status (snd r) @ [StatusInProgress]"
        and "snd (Execute w sessionID triggerEvent orc) \<noteq> Ret None"
        using None run cur by (simp_all add: Execute_statuses_def Execute_def Let_def)
      then show ?thesis unfolding xs by (intro exI[of _ n]) simp
    next
      case (Ret u)
      then have "Execute_statuses w sessionID triggerEvent orc =
          os_Status (orch_state orc) # map os_Status (snd r) @ [StatusCompleted, StatusCompleted]"
        and "snd (Execute w sessionID triggerEvent orc) = Ret None"
        using None run
        by (simp_all add: Execute_statuses_def Execute_def Let_def saved_def update_state_def
              StatusCompleted_def)
      then show ?thesis unfolding xs by (intro exI[of _ n]) simp
    qed
  qed
qed

lemma Recover_within_edges: "within_edges spec_edge (Recover_statuses orc)"
  by (simp add: Recover_trace within_edges_def spec_edge_def)

lemma RecoveryExecute_trace:
  "RecoveryExecute_statuses w rm =
     st_Status (state (rm_stateManager rm)) #
     (if \<not> (cfg_Enabled (rm_config rm) \<and>
             (st_Status (state (rm_stateManager rm)) = StatusInProgress \<or>
              st_Status (state (rm_stateManager rm)) = StatusFailed))
      then [st_Status (state (rm_stateManager rm))]
      else if length (filePath (rm_stateManager rm)) < length ''/state.json''
      then [StatusRecovering]
      else if 0 < cfg_PowerStableDelay (rm_config rm) \<and> rw_delayCancelled w
      then [StatusRecovering, StatusRecovering]
      else if snd (RecoveryExecute w rm) = Ret None
      then [StatusRecovering, StatusIdle, StatusIdle]
      else [StatusRecovering, StatusFailed, StatusFailed])"
proof (cases "cfg_Enabled (rm_config rm) \<and>
             (st_Status (state (rm_stateManager rm)) = StatusInProgress \<or>
              st_Status (state (rm_stateManager rm)) = StatusFailed)")
  case False
  then show ?thesis
    by (auto simp: RecoveryExecute_statuses_def RecoveryExecute_def GetState_def)
next
  case entered: True
  let ?m = "rm_stateManager rm"
  let ?m1 = "SetStatus StatusRecovering ?m"
  let ?errs = "recover_all w (cfg_MaxRetries (rm_config rm)) 0 (GetActionsForRecovery ?m1) []"
  let ?m2 = "if ?errs = [] then Clear (SetStatus StatusIdle ?m1)
             else SetError (fmt_d (int (length ?errs)) @ '' recovery errors'')
                    (SetStatus StatusFailed ?m1)"
  have guard: "\<not> (st_Status (GetState ?m) \<noteq> StatusInProgress \<and>
                  st_Status (GetState ?m) \<noteq> StatusFailed)"
    using entered by (simp add: GetState_def)
  show ?thesis
  proof (cases "length (filePath ?m) < length ''/state.json''")
    case True
    then have "Save (rw_marshal w) (rw_fs w) ?m1 = None"
      by (simp add: Save_def SetStatus_def)
    then show ?thesis
      using entered guard True
      by (auto simp: RecoveryExecute_statuses_def RecoveryExecute_def Let_def SetStatus_def
            GetState_def)
  next
    case False
    then have "length ''/state.json'' \<le> length (filePath ?m1)"
      and "length ''/state.json'' \<le> length (filePath ?m2)"
      by (simp_all add: SetStatus_def SetError_def Clear_def)
    then obtain c1 e1 c2 e2 where
      s1: "Save (rw_marshal w) (rw_fs w) ?m1 = Some (c1, e1)" and
      s2: "Save (rw_marshal w) (rw_fs w) ?m2 = Some (c2, e2)"
      using Save_not_panic[of ?m1 "rw_marshal w" "rw_fs w"]
            Save_not_panic[of ?m2 "rw_marshal w" "rw_fs w"] by fastforce
    have run: "RecoveryExecute w rm =
        (if 0 < cfg_PowerStableDelay (rm_config rm) \<and> rw_delayCancelled w
         then ((rm\<lparr>rm_stateManager := ?m1\<rparr>, [(state ?m1, c1)]), Ret (Some (rw_cerr w)))
         else ((rm\<lparr>rm_stateManager := ?m2\<rparr>, [(state ?m1, c1), (state ?m2, c2)]),
               Ret (if ?errs \<noteq> []
                    then Some (''recovery completed with '' @ fmt_d (int (length ?errs)) @ '' errors'')
                    else None)))"
      unfolding RecoveryExecute_def Let_def using entered guard s1 s2 by auto
    show ?thesis
      unfolding RecoveryExecute_statuses_def run using entered False
      by (simp add: SetStatus_def SetError_def Clear_def zero_State_def)
  qed
qed

lemma RecoveryExecute_within_edges:
  "within_edges spec_edge (RecoveryExecute_statuses w rm)"
  unfolding RecoveryExecute_trace
  by (auto simp: within_edges_def spec_edge_def)

lemma Clear_trace: "Clear_statuses m = [st_Status (state m), StatusIdle]"
  by (simp add: Clear_statuses_def Clear_def zero_State_def)

subsection \<open>The transitions of the specification and those of the code\<close>

text \<open>
  Claim C3 says that every status transition made by \<open>Execute\<close>, \<open>Recover\<close>,
  \<open>RecoveryExecute\<close> and \<open>Clear\<close> is an edge of \<open>spec_edge\<close>, that no operation moves
  completed or failed to in-progress, and that recovery can be entered from each of
  in-progress, completed and failed. The code does otherwise in four places.
  \<open>Clear\<close> on a completed session (the use its comment names) gives idle. A second
  \<open>Execute\<close> on an orchestrator whose session is completed sets in-progress. The recovery
  manager refuses a completed session, and \<open>Recover\<close> refuses a failed one: each leaves
  the status as it was.
\<close>

theorem C3_counterexample_transitions_outside_the_DAG:
  "Clear_statuses (SetStatus StatusCompleted journal_ABC) = [''completed'', ''idle'']
   \<and> \<not> within_edges spec_edge (Clear_statuses (SetStatus StatusCompleted journal_ABC))
   \<and> Execute_statuses quiet_world ''2'' ''battery at 10%'' orchestrator_after_run =
       [''completed'', ''in_progress'', ''completed'', ''completed'']
   \<and> \<not> within_edges spec_edge
         (Execute_statuses quiet_world ''2'' ''battery at 10%'' orchestrator_after_run)
   \<and> RecoveryExecute_statuses calm_recovery
        (recovery_ABC\<lparr>rm_stateManager := SetStatus StatusCompleted journal_ABC\<rparr>) =
       [''completed'', ''completed'']
   \<and> Recover_statuses
        (orchestrator_after_run
           \<lparr>orch_state := (orch_state orchestrator_after_run)\<lparr>os_Status := ''failed''\<rparr>\<rparr>) =
       [''failed'', ''failed'']"
  by code_simp

text \<open>
  Claim C3, amended. The statuses that each operation goes through are these. \<open>Execute\<close>
  started from any status, completed and failed included, moves it straight to
  in-progress, because it opens a new session over whatever state is held; the status
  stays in-progress over every save of the run and becomes completed at the end when
  \<open>Execute\<close> returns nil; it is still in-progress when \<open>Execute\<close> returns the error of the
  first save or panics. \<open>Execute\<close> never sets failed. \<open>Recover\<close> started from in-progress
  or completed moves to recovering and then to idle; from any other status, failed
  included, it changes nothing. \<open>RecoveryExecute\<close>, when recovery is enabled and the status
  is in-progress or failed, moves to recovering, and then to idle when it returns nil and
  to failed when it returns the error of a completed pass; the status stays recovering
  when the wait for stable power is cancelled (or the save panics on a path that is too
  short); when recovery is disabled or the status is another one, completed included, it
  changes nothing. \<open>Clear\<close> moves any status to idle. So \<open>Recover\<close> and \<open>RecoveryExecute\<close>
  keep every transition within the edges of the specification, and so does \<open>Execute\<close> when
  it starts from idle.
\<close>

theorem C3_status_traces_of_the_operations:
  "(\<exists>n. Execute_statuses w sessionID triggerEvent orc =
          os_Status (orch_state orc) # replicate (Suc n) StatusInProgress @
          (if snd (Execute w sessionID triggerEvent orc) = Ret None
           then [StatusCompleted, StatusCompleted] else [StatusInProgress]))
   \<and> (os_Status (orch_state orc) = StatusIdle \<longrightarrow>
        within_edges spec_edge (Execute_statuses w sessionID triggerEvent orc))
   \<and> Recover_statuses orc =
       (if os_Status (orch_state orc) = StatusInProgress \<or>
           os_Status (orch_state orc) = StatusCompleted
        then [os_Status (orch_state orc), StatusRecovering, StatusIdle, StatusIdle]
        else [os_Status (orch_state orc), os_Status (orch_state orc)])
   \<and> within_edges spec_edge (Recover_statuses orc)
   \<and> RecoveryExecute_statuses w' rm =
       st_Status (state (rm_stateManager rm)) #
       (if \<not> (cfg_Enabled (rm_config rm) \<and>
               (st_Status (state (rm_stateManager rm)) = StatusInProgress \<or>
                st_Status (state (rm_stateManager rm)) = StatusFailed))
        then [st_Status (state (rm_stateManager rm))]
        else if length (filePath (rm_stateManager rm)) < length ''/state.json''
        then [StatusRecovering]
        else if 0 < cfg_PowerStableDelay (rm_config rm) \<and> rw_delayCancelled w'
        then [StatusRecovering, StatusRecovering]
        else if snd (RecoveryExecute w' rm) = Ret None
        then [StatusRecovering, StatusIdle, StatusIdle]
        else [StatusRecovering, StatusFailed, StatusFailed])
   \<and> within_edges spec_edge (RecoveryExecute_statuses w' rm)
   \<and> Clear_statuses m = [st_Status (state m), StatusIdle]"
proof (intro conjI impI)
  show "\<exists>n. Execute_statuses w sessionID triggerEvent orc =
          os_Status (orch_state orc) # replicate (Suc n) StatusInProgress @
          (if snd (Execute w sessionID triggerEvent orc) = Ret None
           then [StatusCompleted, StatusCompleted] else [StatusInProgress])"
    by (rule Execute_trace)
next
  assume "os_Status (orch_state orc) = StatusIdle"
  then show "within_edges spec_edge (Execute_statuses w sessionID triggerEvent orc)"
    by (intro Execute_within_edges)
       (simp_all add: spec_edge_def StatusIdle_def StatusInProgress_def StatusCompleted_def)
next
  show "Recover_statuses orc =
       (if os_Status (orch_state orc) = StatusInProgress \<or>
           os_Status (orch_state orc) = StatusCompleted
        then [os_Status (orch_state orc), StatusRecovering, StatusIdle, StatusIdle]
        else [os_Status (orch_state orc), os_Status (orch_state orc)])"
    by (rule Recover_trace)
next
  show "within_edges spec_edge (Recover_statuses orc)"
    by (rule Recover_within_edges)
next
  show "RecoveryExecute_statuses w' rm =
       st_Status (state (rm_stateManager rm)) #
       (if \<not> (cfg_Enabled (rm_config rm) \<and>
               (st_Status (state (rm_stateManager rm)) = StatusInProgress \<or>
                st_Status (state (rm_stateManager rm)) = StatusFailed))
        then [st_Status (state (rm_stateManager rm))]
        else if length (filePath (rm_stateManager rm)) < length ''/state.json''
        then [StatusRecovering]
        else if 0 < cfg_PowerStableDelay (rm_config rm) \<and> rw_delayCancelled w'
        then [StatusRecovering, StatusRecovering]
        else if snd (RecoveryExecute w' rm) = Ret None
        then [StatusRecovering, StatusIdle, StatusIdle]
        else [StatusRecovering, StatusFailed, StatusFailed])"
    by (rule RecoveryExecute_trace)
next
  show "within_edges spec_edge (RecoveryExecute_statuses w' rm)"
    by (rule RecoveryExecute_within_edges)
next
  show "Clear_statuses m = [st_Status (state m), StatusIdle]"
    by (rule Clear_trace)
qed

theorem C3_witness_runs_from_idle_and_in_progress:
  "Execute_statuses quiet_world ''1'' ''battery at 15%''
     (NewOrchestrator abort_all_plan ''/var/lib/proxmox-guardian/state.json'') =
     [''idle'', ''in_progress'', ''in_progress'', ''in_progress'', ''in_progress'', ''in_progress'',
      ''in_progress'', ''in_progress'', ''completed'', ''completed'']
   \<and> within_edges spec_edge
        (Execute_statuses quiet_world ''1'' ''battery at 15%''
           (NewOrchestrator abort_all_plan ''/var/lib/proxmox-guardian/state.json''))
   \<and> RecoveryExecute_statuses calm_recovery recovery_ABC =
        [''in_progress'', ''recovering'', ''idle'', ''idle'']
   \<and> RecoveryExecute_statuses cancelled_recovery recovery_ABC =
        [''in_progress'', ''recovering'', ''recovering'']
   \<and> RecoveryExecute_statuses calm_recovery
        (recovery_ABC\<lparr>rm_stateManager := SetStatus StatusCompleted journal_ABC\<rparr>) =
        [''completed'', ''completed'']
   \<and> Clear_statuses journal_ABC = [''in_progress'', ''idle'']"
proof -
  have idle: "os_Status (orch_state
      (NewOrchestrator abort_all_plan ''/var/lib/proxmox-guardian/state.json'')) = StatusIdle"
    by code_simp
  have t1: "Execute_statuses quiet_world ''1'' ''battery at 15%''
     (NewOrchestrator abort_all_plan ''/var/lib/proxmox-guardian/state.json'') =
     [''idle'', ''in_progress'', ''in_progress'', ''in_progress'', ''in_progress'', ''in_progress'',
      ''in_progress'', ''in_progress'', ''completed'', ''completed'']"
    by code_simp
  have e1: "(if \<not> (cfg_Enabled (rm_config recovery_ABC) \<and>
               (st_Status (state (rm_stateManager recovery_ABC)) = StatusInProgress \<or>
                st_Status (state (rm_stateManager recovery_ABC)) = StatusFailed))
        then [st_Status (state (rm_stateManager recovery_ABC))]
        else if length (filePath (rm_stateManager recovery_ABC)) < length ''/state.json''
        then [StatusRecovering]
        else if 0 < cfg_PowerStableDelay (rm_config recovery_ABC) \<and> rw_delayCancelled calm_recovery
        then [StatusRecovering, StatusRecovering]
        else if snd (RecoveryExecute calm_recovery recovery_ABC) = Ret None
        then [StatusRecovering, StatusIdle, StatusIdle]
        else [StatusRecovering, StatusFailed, StatusFailed]) = [''recovering'', ''idle'', ''idle'']"
    by code_simp
  have e2: "(if \<not> (cfg_Enabled (rm_config recovery_ABC) \<and>
               (st_Status (state (rm_stateManager recovery_ABC)) = StatusInProgress \<or>
                st_Status (state (rm_stateManager recovery_ABC)) = StatusFailed))
        then [st_Status (state (rm_stateManager recovery_ABC))]
        else if length (filePath (rm_stateManager recovery_ABC)) < length ''/state.json''
        then [StatusRecovering]
        else if 0 < cfg_PowerStableDelay (rm_config recovery_ABC) \<and> rw_delayCancelled cancelled_recovery
        then [StatusRecovering, StatusRecovering]
        else if snd (RecoveryExecute cancelled_recovery recovery_ABC) = Ret None
        then [StatusRecovering, StatusIdle, StatusIdle]
        else [StatusRecovering, StatusFailed, StatusFailed]) = [''recovering'', ''recovering'']"
    by code_simp
  have e3: "(if \<not> (cfg_Enabled (rm_config
                 (recovery_ABC\<lparr>rm_stateManager := SetStatus StatusCompleted journal_ABC\<rparr>)) \<and>
               (st_Status (state (rm_stateManager
                 (recovery_ABC\<lparr>rm_stateManager := SetStatus StatusCompleted journal_ABC\<rparr>))) =
                  StatusInProgress \<or>
                st_Status (state (rm_stateManager
                 (recovery_ABC\<lparr>rm_stateManager := SetStatus StatusCompleted journal_ABC\<rparr>))) =
                  StatusFailed))
        then [st_Status (state (rm_stateManager
                 (recovery_ABC\<lparr>rm_stateManager := SetStatus StatusCompleted journal_ABC\<rparr>)))]
        else if length (filePath (rm_stateManager
                 (recovery_ABC\<lparr>rm_stateManager := SetStatus StatusCompleted journal_ABC\<rparr>)))
                < length ''/state.json''
        then [StatusRecovering]
        else if 0 < cfg_PowerStableDelay (rm_config
                 (recovery_ABC\<lparr>rm_stateManager := SetStatus StatusCompleted journal_ABC\<rparr>)) \<and>
                rw_delayCancelled calm_recovery
        then [StatusRecovering, StatusRecovering]
        else if snd (RecoveryExecute calm_recovery
                 (recovery_ABC\<lparr>rm_stateManager := SetStatus StatusCompleted journal_ABC\<rparr>)) = Ret None
        then [StatusRecovering, StatusIdle, StatusIdle]
        else [StatusRecovering, StatusFailed, StatusFailed]) = [''completed'']"
    by code_simp
  have s1: "st_Status (state (rm_stateManager recovery_ABC)) = ''in_progress''"
    by code_simp
  have s3: "st_Status (state (rm_stateManager
      (recovery_ABC\<lparr>rm_stateManager := SetStatus StatusCompleted journal_ABC\<rparr>))) = ''completed''"
    by code_simp
  have s4: "st_Status (state journal_ABC) = ''in_progress''" "StatusIdle = ''idle''"
    by code_simp+
  note run1 = C3_status_traces_of_the_operations
      [where orc = "NewOrchestrator abort_all_plan ''/var/lib/proxmox-guardian/state.json''"
         and w = quiet_world and sessionID = "''1''" and triggerEvent = "''battery at 15%''"
         and w' = calm_recovery and rm = recovery_ABC and m = journal_ABC]
  note run2 = C3_status_traces_of_the_operations
      [where w' = cancelled_recovery and rm = recovery_ABC]
  note run3 = C3_status_traces_of_the_operations
      [where w' = calm_recovery
         and rm = "recovery_ABC\<lparr>rm_stateManager := SetStatus StatusCompleted journal_ABC\<rparr>"]
  have a: "within_edges spec_edge
        (Execute_statuses quiet_world ''1'' ''battery at 15%''
           (NewOrchestrator abort_all_plan ''/var/lib/proxmox-guardian/state.json''))"
    using run1 idle by blast
  have b: "RecoveryExecute_statuses calm_recovery recovery_ABC =
        [''in_progress'', ''recovering'', ''idle'', ''idle'']"
    using run1[THEN conjunct2, THEN conjunct2, THEN conjunct2, THEN conjunct2, THEN conjunct1,
               unfolded e1, unfolded s1] .
  have c: "RecoveryExecute_statuses cancelled_recovery recovery_ABC =
        [''in_progress'', ''recovering'', ''recovering'']"
    using run2[THEN conjunct2, THEN conjunct2, THEN conjunct2, THEN conjunct2, THEN conjunct1,
               unfolded e2, unfolded s1] .
  have d: "RecoveryExecute_statuses calm_recovery
        (recovery_ABC\<lparr>rm_stateManager := SetStatus StatusCompleted journal_ABC\<rparr>) =
        [''completed'', ''completed'']"
    using run3[THEN conjunct2, THEN conjunct2, THEN conjunct2, THEN conjunct2, THEN conjunct1,
               unfolded e3, unfolded s3] .
  have e: "Clear_statuses journal_ABC = [''in_progress'', ''idle'']"
    using run1[THEN conjunct2, THEN conjunct2, THEN conjunct2, THEN conjunct2, THEN conjunct2,
               THEN conjunct2, unfolded s4] .
  show ?thesis
    using t1 a b c d e by (intro conjI)
qed

end
